theory Spec2Isabelle
  imports Main "HOL-Library.Word" "HOL-Library.AList"
begin

section \<open>The aggregation engine of manager/aggregator.go\<close>

text \<open>
  The Go package keeps, per event fingerprint, an aggregation instance (rule, events,
  dispatch state).  A single goroutine (\<open>Dispatch\<close>) owns the rule list and the table
  of instances and serves three sources: ingestion requests, rule replacement requests
  and a ticker whose ticks tidy every instance.

  Conventions of the embedding:
  \<^item> a \<open>time.Time\<close> is an instant, an \<open>int\<close>; \<open>t.Before(u)\<close> is \<open>t < u\<close>;
    each call of \<open>time.Now()\<close> is an input of the function that makes it;
  \<^item> a \<open>*AggregationRule\<close> is an address (\<open>rule_ref\<close>); the rule objects live in a
    store that no function of the file writes to, so two rules with equal fields are
    still two rules;
  \<^item> the table \<open>map[uint64]*AggregationInstance\<close> is an association list, read with
    \<open>map_of\<close> and written with \<open>AList.update\<close>; every instance is referenced from its
    table entry only, so a method call on the pointer is an update of the entry; the
    order of the list is the order in which the sweep visits the entries, which Go
    leaves open and on which no result depends (each call of \<open>Tidy\<close> changes its own
    instance only and writes the same log line);
  \<^item> what the code writes to the \<open>log\<close> package and what it passes to the
    \<open>SummaryReceiver\<close> is appended to the \<open>world\<close>, in order;
  \<^item> which case a \<open>select\<close> of the dispatch loop takes, and what it receives, is an
    input: \<open>Dispatch\<close> runs on a sequence of selections;
  \<^item> the pointers in a rule list, in a batch of events and in the table are not nil;
    the one nil pointer the code itself produces, the request received from a closed
    channel, is modelled, and its dereference is the value \<open>Inl NilPointerDereference\<close>.
\<close>

subsection \<open>Data\<close>

datatype aggDispatchState = aggUnsent | aggSent

text \<open>
  Modelled from the spec: the type \<open>Event\<close> is declared outside the two source files.
  The spec gives it attributes (key/value pairs) and a creation timestamp; the code
  under study reads \<open>CreatedAt\<close> and calls \<open>Fingerprint()\<close> only.
\<close>

record Event =
  Attributes :: "(string \<times> string) list"
  CreatedAt :: int

text \<open>The type \<open>Filters\<close> is declared elsewhere: it is the type parameter \<open>'f\<close>.\<close>

record 'f AggregationRule =
  Filters :: 'f
  RepeatRate :: int

type_synonym rule_ref = nat

record AggregationInstance =
  Rule :: rule_ref
  Events :: "Event list"
  EndsAt :: int
  state :: aggDispatchState

text \<open>The zero \<open>time.Time\<close>, the value of \<open>EndsAt\<close> in a composite literal that omits it.\<close>

definition zeroTime :: int where
  "zeroTime = 0"

text \<open>
  \<open>EventSummary\<close> is declared elsewhere; the code builds it from a rule and an event
  sequence.  The error a receiver returns is read through \<open>Retryable()\<close> only.
\<close>

record EventSummary =
  Rule_summary :: rule_ref
  Events_summary :: "Event list"

datatype SendError = SendError (Retryable: bool)

text \<open>
  \<open>SummaryReceiver.Receive\<close>: the answer may depend on the summary and on everything
  the receiver was given before; \<open>None\<close> is the nil error.
\<close>

type_synonym SummaryReceiver = "EventSummary list \<Rightarrow> EventSummary \<Rightarrow> SendError option"

record aggregateEventsRequest =
  Events_request :: "Event list"

record aggregateEventsResponse =
  Err :: "string option"

record aggregatorResetRulesRequest =
  Rules_request :: "rule_ref list"

datatype log_entry =
    LogTidying
  | LogUnretryable SendError
  | LogAggregating aggregateEventsRequest
  | LogChecking rule_ref bool
  | LogReplacing nat

record world =
  logged :: "log_entry list"
  received :: "EventSummary list"

record Aggregator =
  Rules :: "rule_ref list"
  Aggregates :: "(64 word \<times> AggregationInstance) list"

text \<open>
  What the file takes from the rest of the package: the rule objects behind the
  pointers, \<open>Filters.Handles\<close> and \<open>Event.Fingerprint\<close>.
\<close>

record 'f env =
  rule_at :: "rule_ref \<Rightarrow> 'f AggregationRule"
  Filters_Handles :: "'f \<Rightarrow> Event \<Rightarrow> bool"
  Fingerprint :: "Event \<Rightarrow> 64 word"

datatype panic = NilPointerDereference

subsection \<open>Rules and aggregation instances\<close>

definition Handles :: "'f env \<Rightarrow> rule_ref \<Rightarrow> Event \<Rightarrow> bool" where
  "Handles env r e = Filters_Handles env (Filters (rule_at env r)) e"

definition Ingest :: "Event \<Rightarrow> AggregationInstance \<Rightarrow> AggregationInstance" where
  "Ingest e r = r\<lparr>Events := Events r @ [e]\<rparr>"

text \<open>\<open>Tidy\<close>, with \<open>t\<close> the value of its \<open>time.Now()\<close>.\<close>

definition Tidy :: "int \<Rightarrow> AggregationInstance \<times> world \<Rightarrow> AggregationInstance \<times> world" where
  "Tidy t rw = (case rw of (r, w) \<Rightarrow>
     (let w1 = w\<lparr>logged := logged w @ [LogTidying]\<rparr> in
      if length (Events r) = 0 then (r, w1)
      else
        (let events = filter (\<lambda>e. t < CreatedAt e) (Events r);
             r1 = (if length events = 0 then r\<lparr>state := aggSent\<rparr> else r)
         in (r1\<lparr>Events := events\<rparr>, w1))))"

definition SendNotification ::
  "SummaryReceiver \<Rightarrow> AggregationInstance \<times> world \<Rightarrow> AggregationInstance \<times> world" where
  "SendNotification s rw = (case rw of (r, w) \<Rightarrow>
     if state r = aggSent then (r, w)
     else
       (let summary = \<lparr>Rule_summary = Rule r, Events_summary = Events r\<rparr>;
            err = s (received w) summary;
            w1 = w\<lparr>received := received w @ [summary]\<rparr>
        in case err of
             None \<Rightarrow> (r\<lparr>state := aggSent\<rparr>, w1)
           | Some e \<Rightarrow>
               if Retryable e then (r, w1)
               else (r\<lparr>state := aggSent\<rparr>, w1\<lparr>logged := logged w1 @ [LogUnretryable e]\<rparr>)))"

subsection \<open>The aggregator\<close>

definition NewAggregator :: Aggregator where
  "NewAggregator = \<lparr>Rules = [], Aggregates = []\<rparr>"

text \<open>
  The body of the inner loop of \<open>aggregate\<close> for a rule \<open>r\<close> that handles \<open>element\<close>:
  look the fingerprint up, create and store an instance when there is none, then
  \<open>Ingest\<close> and \<open>SendNotification\<close> on the instance of the table.
\<close>

definition route ::
  "'f env \<Rightarrow> SummaryReceiver \<Rightarrow> Event \<Rightarrow> rule_ref \<Rightarrow> Aggregator \<times> world \<Rightarrow> Aggregator \<times> world" where
  "route env s element r aw = (case aw of (a, w) \<Rightarrow>
     (let fp = Fingerprint env element;
          (a1, aggregation) =
            (case map_of (Aggregates a) fp of
               Some inst \<Rightarrow> (a, inst)
             | None \<Rightarrow>
                 (let inst = \<lparr>Rule = r, Events = [], EndsAt = zeroTime, state = aggUnsent\<rparr>
                  in (a\<lparr>Aggregates := AList.update fp inst (Aggregates a)\<rparr>, inst)));
          (aggregation2, w2) = SendNotification s (Ingest element aggregation, w)
      in (a1\<lparr>Aggregates := AList.update fp aggregation2 (Aggregates a1)\<rparr>, w2)))"

text \<open>
  The inner loop, \<open>for _, r := range a.Rules\<close>: one log line per rule looked at, and
  \<open>break\<close> after the first rule that handles the element.
\<close>

fun rules_loop ::
  "'f env \<Rightarrow> SummaryReceiver \<Rightarrow> Event \<Rightarrow> rule_ref list \<Rightarrow> Aggregator \<times> world \<Rightarrow> Aggregator \<times> world" where
  "rules_loop env s element [] aw = aw"
| "rules_loop env s element (r # rs) aw =
     (let aw1 = (fst aw, (snd aw)\<lparr>logged := logged (snd aw) @ [LogChecking r (Handles env r element)]\<rparr>)
      in if Handles env r element then route env s element r aw1
         else rules_loop env s element rs aw1)"

text \<open>The outer loop, \<open>for _, element := range req.Events\<close>.\<close>

fun events_loop ::
  "'f env \<Rightarrow> SummaryReceiver \<Rightarrow> Event list \<Rightarrow> Aggregator \<times> world \<Rightarrow> Aggregator \<times> world" where
  "events_loop env s [] aw = aw"
| "events_loop env s (element # rest) aw =
     events_loop env s rest (rules_loop env s element (Rules (fst aw)) aw)"

text \<open>
  \<open>aggregate\<close>.  The value sent on \<open>req.Response\<close> is returned.  With a nil request the
  first use of \<open>req\<close> (\<open>req.Response\<close> when there is no rule, \<open>*req\<close> in the log call
  otherwise) is a nil pointer dereference.
\<close>

definition aggregate ::
  "'f env \<Rightarrow> aggregateEventsRequest option \<Rightarrow> SummaryReceiver \<Rightarrow> Aggregator \<times> world \<Rightarrow>
   panic + (aggregateEventsResponse \<times> Aggregator \<times> world)" where
  "aggregate env req s aw = (case aw of (a, w) \<Rightarrow>
     if length (Rules a) = 0 then
       (case req of
          None \<Rightarrow> Inl NilPointerDereference
        | Some rq \<Rightarrow> Inr (\<lparr>Err = Some ''No aggregation rules''\<rparr>, a, w))
     else
       (case req of
          None \<Rightarrow> Inl NilPointerDereference
        | Some rq \<Rightarrow>
            (let w1 = w\<lparr>logged := logged w @ [LogAggregating rq]\<rparr>;
                 aw2 = events_loop env s (Events_request rq) (a, w1)
             in Inr (\<lparr>Err = None\<rparr>, aw2))))"

text \<open>\<open>replaceRules\<close>; the response is the empty struct.  \<open>r.Rules\<close> on a nil request panics.\<close>

definition replaceRules ::
  "aggregatorResetRulesRequest option \<Rightarrow> Aggregator \<times> world \<Rightarrow> panic + (unit \<times> Aggregator \<times> world)" where
  "replaceRules r aw = (case aw of (a, w) \<Rightarrow>
     (case r of
        None \<Rightarrow> Inl NilPointerDereference
      | Some rq \<Rightarrow>
          (let w1 = w\<lparr>logged := logged w @ [LogReplacing (length (Rules_request rq))]\<rparr>
           in Inr ((), a\<lparr>Rules := Rules_request rq\<rparr>, w1))))"

subsection \<open>The dispatch loop\<close>

text \<open>
  A receive \<open>v, open := <-ch\<close> yields a value that was sent, with \<open>open\<close> true, or, on a
  closed channel, the zero value (nil) with \<open>open\<close> false.  \<open>Receive\<close> and \<open>SetRules\<close>,
  the only senders, send the address of a fresh request, never nil.
\<close>

datatype 'a received_from = Sent 'a | ChannelClosed

fun recv_value :: "'a received_from \<Rightarrow> 'a option" where
  "recv_value (Sent v) = Some v"
| "recv_value ChannelClosed = None"

fun recv_open :: "'a received_from \<Rightarrow> bool" where
  "recv_open (Sent v) = True"
| "recv_open ChannelClosed = False"

text \<open>
  What one \<open>select\<close> picks.  A tick carries the readings of \<open>time.Now()\<close> made by the
  calls of \<open>Tidy\<close> of that sweep, one for the instance of each fingerprint.
\<close>

datatype selected =
    FromAggRequests "aggregateEventsRequest received_from"
  | FromRulesRequests "aggregatorResetRulesRequest received_from"
  | FromTicker "64 word \<Rightarrow> int"

text \<open>The sweep \<open>for _, a := range a.Aggregates { a.Tidy() }\<close>.\<close>

fun tidy_all ::
  "(64 word \<Rightarrow> int) \<Rightarrow> (64 word \<times> AggregationInstance) list \<Rightarrow> world \<Rightarrow>
   (64 word \<times> AggregationInstance) list \<times> world" where
  "tidy_all now [] w = ([], w)"
| "tidy_all now ((fp, r) # rest) w =
     (let (r1, w1) = Tidy (now fp) (r, w);
          (rest1, w2) = tidy_all now rest w1
      in ((fp, r1) # rest1, w2))"

text \<open>
  One turn of the loop of \<open>Dispatch\<close>: the handler runs first, the closure is counted
  after it.  The result is the new count of closures and the new state.
\<close>

definition Dispatch_step ::
  "'f env \<Rightarrow> SummaryReceiver \<Rightarrow> selected \<Rightarrow> nat \<times> Aggregator \<times> world \<Rightarrow>
   panic + (nat \<times> Aggregator \<times> world)" where
  "Dispatch_step env s sel st = (case st of (closed, aw) \<Rightarrow>
     (case sel of
        FromAggRequests rv \<Rightarrow>
          (case aggregate env (recv_value rv) s aw of
             Inl p \<Rightarrow> Inl p
           | Inr (resp, aw1) \<Rightarrow> Inr (if \<not> recv_open rv then closed + 1 else closed, aw1))
      | FromRulesRequests rv \<Rightarrow>
          (case replaceRules (recv_value rv) aw of
             Inl p \<Rightarrow> Inl p
           | Inr (resp, aw1) \<Rightarrow> Inr (if \<not> recv_open rv then closed + 1 else closed, aw1))
      | FromTicker now \<Rightarrow>
          (let (tbl, w1) = tidy_all now (Aggregates (fst aw)) (snd aw)
           in Inr (closed, (fst aw)\<lparr>Aggregates := tbl\<rparr>, w1))))"

text \<open>
  \<open>Dispatch\<close> on a finite sequence of selections: it panics, or leaves the loop with
  two closures counted and sends on \<open>a.closed\<close>, or is still waiting in \<open>select\<close> when
  the sequence is used up.
\<close>

datatype dispatch_result =
    Panicked panic
  | SignalledClosed "Aggregator \<times> world"
  | Waiting nat "Aggregator \<times> world"

fun Dispatch_loop ::
  "'f env \<Rightarrow> SummaryReceiver \<Rightarrow> selected list \<Rightarrow> nat \<times> Aggregator \<times> world \<Rightarrow> dispatch_result" where
  "Dispatch_loop env s [] st =
     (if fst st < 2 then Waiting (fst st) (snd st) else SignalledClosed (snd st))"
| "Dispatch_loop env s (sel # rest) st =
     (if fst st < 2 then
        (case Dispatch_step env s sel st of
           Inl p \<Rightarrow> Panicked p
         | Inr st1 \<Rightarrow> Dispatch_loop env s rest st1)
      else SignalledClosed (snd st))"

definition Dispatch ::
  "'f env \<Rightarrow> SummaryReceiver \<Rightarrow> selected list \<Rightarrow> Aggregator \<times> world \<Rightarrow> dispatch_result" where
  "Dispatch env s sels aw = Dispatch_loop env s sels (0, aw)"

subsection \<open>A predicate on tables and example data\<close>

text \<open>Every instance of the table that holds no event is \<open>aggSent\<close>.\<close>

definition empty_only_when_sent :: "Aggregator \<Rightarrow> bool" where
  "empty_only_when_sent a =
     list_all (\<lambda>(fp, r). Events r \<noteq> [] \<or> state r = aggSent) (Aggregates a)"

text \<open>
  Concrete data for evaluating the definitions: filters are lists of attribute pairs
  that an event must carry; rule 1 asks for \<open>service = db\<close>, rule 2 for nothing, every
  other rule for \<open>service = web\<close>; three receivers with a constant answer.
\<close>

definition ex_env :: "(string \<times> string) list env" where
  "ex_env =
     \<lparr>rule_at = (\<lambda>n. \<lparr>Filters = (if n = 1 then [(''service'', ''db'')]
                                  else if n = 2 then [] else [(''service'', ''web'')]),
                       RepeatRate = 0\<rparr>),
      Filters_Handles = (\<lambda>f e. list_all (\<lambda>p. p \<in> set (Attributes e)) f),
      Fingerprint = (\<lambda>e. of_nat (sum_list (map (\<lambda>(k, v). length k + length v) (Attributes e))))\<rparr>"

definition ex_delivers :: SummaryReceiver where
  "ex_delivers = (\<lambda>before summary. None)"

definition ex_retryable :: SummaryReceiver where
  "ex_retryable = (\<lambda>before summary. Some (SendError True))"

definition ex_unretryable :: SummaryReceiver where
  "ex_unretryable = (\<lambda>before summary. Some (SendError False))"

definition ex_e1 :: Event where
  "ex_e1 = \<lparr>Attributes = [(''service'', ''db'')], CreatedAt = 100\<rparr>"

definition ex_e2 :: Event where
  "ex_e2 = \<lparr>Attributes = [(''service'', ''db'')], CreatedAt = 105\<rparr>"

definition ex_world :: world where
  "ex_world = \<lparr>logged = [], received = []\<rparr>"

definition ex_sent :: AggregationInstance where
  "ex_sent = \<lparr>Rule = 2, Events = [ex_e1], EndsAt = 0, state = aggSent\<rparr>"

definition ex_unsent :: AggregationInstance where
  "ex_unsent = \<lparr>Rule = 2, Events = [ex_e1], EndsAt = 0, state = aggUnsent\<rparr>"

definition ex_agg :: Aggregator where
  "ex_agg = \<lparr>Rules = [3, 1, 2], Aggregates = [(9, ex_sent)]\<rparr>"

section \<open>Properties\<close>

subsection \<open>The methods of an instance\<close>


lemma SendNotification_sent:
  "state r = aggSent \<Longrightarrow> SendNotification s (r, w) = (r, w)"
  by (simp add: SendNotification_def)

lemma SendNotification_fields:
  "Rule (fst (SendNotification s (r, w))) = Rule r"
  "Events (fst (SendNotification s (r, w))) = Events r"
  "EndsAt (fst (SendNotification s (r, w))) = EndsAt r"
  by (simp_all add: SendNotification_def Let_def split: option.splits)

lemma SendNotification_state_mono:
  "state r = aggSent \<Longrightarrow> state (fst (SendNotification s (r, w))) = aggSent"
  by (simp add: SendNotification_def)

lemma SendNotification_received:
  "received (snd (SendNotification s (r, w))) =
     (if state r = aggSent then received w
      else received w @ [\<lparr>Rule_summary = Rule r, Events_summary = Events r\<rparr>])"
  by (simp add: SendNotification_def Let_def split: option.splits)

lemma Tidy_fields:
  "Rule (fst (Tidy t (r, w))) = Rule r"
  "EndsAt (fst (Tidy t (r, w))) = EndsAt r"
  "received (snd (Tidy t (r, w))) = received w"
  "logged (snd (Tidy t (r, w))) = logged w @ [LogTidying]"
  by (simp_all add: Tidy_def Let_def)

lemma Tidy_state_mono:
  "state r = aggSent \<Longrightarrow> state (fst (Tidy t (r, w))) = aggSent"
  by (simp add: Tidy_def Let_def)

lemma route_Rules: "Rules (fst (route env s e r (a, w))) = Rules a"
  by (simp add: route_def Let_def split: option.splits prod.splits)

lemma route_map_of:
  "map_of (Aggregates (fst (route env s e r (a, w)))) =
     (map_of (Aggregates a))(Fingerprint env e \<mapsto>
        fst (SendNotification s (Ingest e
          (case map_of (Aggregates a) (Fingerprint env e) of
             Some inst \<Rightarrow> inst
           | None \<Rightarrow> \<lparr>Rule = r, Events = [], EndsAt = zeroTime, state = aggUnsent\<rparr>), w)))"
  by (simp add: route_def Let_def update_conv' split: option.splits prod.splits)

lemma route_snd:
  "snd (route env s e r (a, w)) =
     snd (SendNotification s (Ingest e
          (case map_of (Aggregates a) (Fingerprint env e) of
             Some inst \<Rightarrow> inst
           | None \<Rightarrow> \<lparr>Rule = r, Events = [], EndsAt = zeroTime, state = aggUnsent\<rparr>), w))"
  by (simp add: route_def Let_def split: option.splits prod.splits)

lemma route_keys:
  "map fst (Aggregates (fst (route env s e r (a, w)))) =
     (if Fingerprint env e \<in> fst ` set (Aggregates a) then map fst (Aggregates a)
      else map fst (Aggregates a) @ [Fingerprint env e])"
  by (auto simp add: route_def Let_def update_keys map_of_eq_None_iff split: option.splits prod.splits dest: map_of_SomeD weak_map_of_SomeI)


subsection \<open>The loops of aggregate\<close>

lemma rules_loop_no_match:
  "\<forall>x\<in>set rules. \<not> Handles env x e \<Longrightarrow>
   rules_loop env s e rules (a, w) =
     (a, w\<lparr>logged := logged w @ map (\<lambda>x. LogChecking x False) rules\<rparr>)"
  by (induction rules arbitrary: w) (simp_all add: Let_def)

lemma rules_loop_first_match:
  "\<forall>x\<in>set pre. \<not> Handles env x e \<Longrightarrow> Handles env r e \<Longrightarrow>
   rules_loop env s e (pre @ r # post) (a, w) =
     route env s e r
       (a, w\<lparr>logged := logged w @ map (\<lambda>x. LogChecking x False) pre @ [LogChecking r True]\<rparr>)"
  by (induction pre arbitrary: w) (simp_all add: Let_def)



lemma Tidy_world_independent:
  "fst (Tidy t (r, w)) = fst (Tidy t (r, w'))"
  by (simp add: Tidy_def Let_def)

lemma rules_loop_Rules: "Rules (fst (rules_loop env s e rules aw)) = Rules (fst aw)"
proof (induction rules arbitrary: aw)
  case Nil
  show ?case by simp
next
  case (Cons r rs)
  show ?case
    using Cons.IH route_Rules [of env s e r "fst aw"]
    by (cases aw) (simp add: Let_def)
qed

lemma events_loop_Rules: "Rules (fst (events_loop env s es aw)) = Rules (fst aw)"
  by (induction es arbitrary: aw) (simp_all add: rules_loop_Rules)

text \<open>How the instance of a fingerprint evolves: a relation closed under the methods.\<close>

lemma route_evolves:
  assumes refl: "\<And>x. R x x"
    and send: "\<And>x e w. R x (fst (SendNotification s (Ingest e x, w)))"
    and present: "map_of (Aggregates a) fp = Some x"
  shows "\<exists>y. map_of (Aggregates (fst (route env s e r (a, w)))) fp = Some y \<and> R x y"
  using present refl send by (auto simp add: route_map_of)

lemma rules_loop_evolves:
  assumes refl: "\<And>x. R x x"
    and send: "\<And>x e w. R x (fst (SendNotification s (Ingest e x, w)))"
  shows "map_of (Aggregates a) fp = Some x \<Longrightarrow>
    \<exists>y. map_of (Aggregates (fst (rules_loop env s e rules (a, w)))) fp = Some y \<and> R x y"
proof (induction rules arbitrary: w)
  case Nil
  then show ?case using refl by simp
next
  case (Cons r rs)
  show ?case
  proof (cases "Handles env r e")
    case True
    then show ?thesis
      using route_evolves [of R s a fp x env e r, OF refl send Cons.prems]
      by (simp add: Let_def)
  next
    case False
    then show ?thesis using Cons.IH [OF Cons.prems] by (simp add: Let_def)
  qed
qed

lemma events_loop_evolves:
  assumes refl: "\<And>x. R x x"
    and trans: "\<And>x y z. R x y \<Longrightarrow> R y z \<Longrightarrow> R x z"
    and send: "\<And>x e w. R x (fst (SendNotification s (Ingest e x, w)))"
  shows "map_of (Aggregates a) fp = Some x \<Longrightarrow>
    \<exists>y. map_of (Aggregates (fst (events_loop env s es (a, w)))) fp = Some y \<and> R x y"
proof (induction es arbitrary: a w x)
  case Nil
  then show ?case using refl by simp
next
  case (Cons e es)
  obtain a1 w1 where step: "rules_loop env s e (Rules a) (a, w) = (a1, w1)"
    by (cases "rules_loop env s e (Rules a) (a, w)")
  from rules_loop_evolves [of R s a fp x env e "Rules a" w, OF refl send Cons.prems] step
  obtain y where y: "map_of (Aggregates a1) fp = Some y" "R x y" by auto
  from Cons.IH [OF y(1)] obtain z
    where z: "map_of (Aggregates (fst (events_loop env s es (a1, w1)))) fp = Some z" "R y z"
    by blast
  show ?case using step z trans [OF y(2) z(2)] by simp
qed

lemma tidy_all_map_of:
  "map_of (fst (tidy_all now al w)) fp =
     map_option (\<lambda>r. fst (Tidy (now fp) (r, w))) (map_of al fp)"
proof (induction al arbitrary: w)
  case Nil
  show ?case by simp
next
  case (Cons p al)
  obtain k r where p: "p = (k, r)" by (cases p)
  show ?case
    using Cons.IH [of "snd (Tidy (now k) (r, w))"] Tidy_world_independent [of "now fp" _ "snd (Tidy (now k) (r, w))" w]
    by (simp add: p case_prod_beta)
qed

lemma tidy_all_keys: "map fst (fst (tidy_all now al w)) = map fst al"
proof (induction al arbitrary: w)
  case Nil
  show ?case by simp
next
  case (Cons p al)
  obtain k r where p: "p = (k, r)" by (cases p)
  show ?case using Cons.IH [of "snd (Tidy (now k) (r, w))"] by (simp add: p case_prod_beta)
qed

lemma tidy_all_logged:
  "logged (snd (tidy_all now al w)) = logged w @ replicate (length al) LogTidying"
proof (induction al arbitrary: w)
  case Nil
  show ?case by simp
next
  case (Cons p al)
  obtain k r where p: "p = (k, r)" by (cases p)
  show ?case
    using Cons.IH [of "snd (Tidy (now k) (r, w))"] Tidy_fields(4) [of "now k" r w]
    by (simp add: p case_prod_beta replicate_append_same)
qed

lemma tidy_all_received: "received (snd (tidy_all now al w)) = received w"
proof (induction al arbitrary: w)
  case Nil
  show ?case by simp
next
  case (Cons p al)
  obtain k r where p: "p = (k, r)" by (cases p)
  show ?case
    using Cons.IH [of "snd (Tidy (now k) (r, w))"] Tidy_fields(3) [of "now k" r w]
    by (simp add: p case_prod_beta)
qed

lemma Dispatch_step_evolves:
  assumes refl: "\<And>x. R x x"
    and trans: "\<And>x y z. R x y \<Longrightarrow> R y z \<Longrightarrow> R x z"
    and send: "\<And>x e w. R x (fst (SendNotification s (Ingest e x, w)))"
    and tidy: "\<And>x t w. R x (fst (Tidy t (x, w)))"
    and present: "map_of (Aggregates a) fp = Some x"
    and step: "Dispatch_step env s sel (closed, a, w) = Inr (closed1, a1, w1)"
  shows "\<exists>y. map_of (Aggregates a1) fp = Some y \<and> R x y"
proof (cases sel)
  case (FromAggRequests rv)
  show ?thesis
  proof (cases rv)
    case (Sent rq)
    show ?thesis
    proof (cases "Rules a = []")
      case True
      then show ?thesis
        using step present refl by (auto simp add: Dispatch_step_def FromAggRequests Sent aggregate_def)
    next
      case False
      then have "a1 = fst (events_loop env s (Events_request rq) (a, w\<lparr>logged := logged w @ [LogAggregating rq]\<rparr>))"
        using step by (auto simp add: Dispatch_step_def FromAggRequests Sent aggregate_def Let_def)
      then show ?thesis
        using events_loop_evolves [of R s a fp x env "Events_request rq", OF refl trans send present]
        by simp
    qed
  next
    case ChannelClosed
    then show ?thesis
      using step by (simp add: Dispatch_step_def FromAggRequests aggregate_def split: if_splits)
  qed
next
  case (FromRulesRequests rv)
  then show ?thesis
    using step present refl
    by (cases rv) (auto simp add: Dispatch_step_def replaceRules_def Let_def)
next
  case (FromTicker now)
  then have "Aggregates a1 = fst (tidy_all now (Aggregates a) w)"
    using step by (auto simp add: Dispatch_step_def split: prod.splits)
  then show ?thesis
    using present tidy by (simp add: tidy_all_map_of)
qed


subsection \<open>Empty instances\<close>



lemma list_all_update:
  "list_all P al \<Longrightarrow> P (k, v) \<Longrightarrow> list_all P (AList.update k v al)"
  by (induction al) auto

lemma route_table:
  "Aggregates (fst (route env s e r (a, w))) =
     AList.update (Fingerprint env e)
       (fst (SendNotification s (Ingest e
          (case map_of (Aggregates a) (Fingerprint env e) of
             Some inst \<Rightarrow> inst
           | None \<Rightarrow> \<lparr>Rule = r, Events = [], EndsAt = zeroTime, state = aggUnsent\<rparr>), w)))
       (Aggregates a)"
  by (simp add: route_def Let_def case_prod_beta split: option.splits)

lemma route_invariant:
  "empty_only_when_sent a \<Longrightarrow> empty_only_when_sent (fst (route env s e r (a, w)))"
  unfolding empty_only_when_sent_def route_table
  by (rule list_all_update) (simp_all add: SendNotification_fields Ingest_def)

lemma rules_loop_invariant:
  "empty_only_when_sent a \<Longrightarrow> empty_only_when_sent (fst (rules_loop env s e rules (a, w)))"
  by (induction rules arbitrary: w) (simp_all add: Let_def route_invariant)

lemma events_loop_invariant:
  "empty_only_when_sent (fst aw) \<Longrightarrow> empty_only_when_sent (fst (events_loop env s es aw))"
proof (induction es arbitrary: aw)
  case Nil
  then show ?case by simp
next
  case (Cons e es)
  have "empty_only_when_sent (fst (rules_loop env s e (Rules (fst aw)) aw))"
    using rules_loop_invariant [of "fst aw" env s e "Rules (fst aw)" "snd aw"] Cons.prems by simp
  then show ?case using Cons.IH by simp
qed

lemma Tidy_invariant:
  "Events r \<noteq> [] \<or> state r = aggSent \<Longrightarrow>
   Events (fst (Tidy t (r, w))) \<noteq> [] \<or> state (fst (Tidy t (r, w))) = aggSent"
  by (auto simp add: Tidy_def Let_def)

lemma tidy_all_invariant:
  "list_all (\<lambda>(fp, r). Events r \<noteq> [] \<or> state r = aggSent) al \<Longrightarrow>
   list_all (\<lambda>(fp, r). Events r \<noteq> [] \<or> state r = aggSent) (fst (tidy_all now al w))"
proof (induction al arbitrary: w)
  case Nil
  show ?case by simp
next
  case (Cons p al)
  obtain k r where p: "p = (k, r)" by (cases p)
  show ?case
    using Cons.IH [of "snd (Tidy (now k) (r, w))"] Cons.prems Tidy_invariant [of r "now k" w]
    by (simp add: p case_prod_beta)
qed

lemma Dispatch_step_invariant:
  assumes inv: "empty_only_when_sent a"
    and step: "Dispatch_step env s sel (closed, a, w) = Inr (closed1, a1, w1)"
  shows "empty_only_when_sent a1"
proof (cases sel)
  case (FromAggRequests rv)
  show ?thesis
  proof (cases rv)
    case (Sent rq)
    show ?thesis
    proof (cases "Rules a = []")
      case True
      then show ?thesis
        using step inv by (auto simp add: Dispatch_step_def FromAggRequests Sent aggregate_def)
    next
      case False
      then have "a1 = fst (events_loop env s (Events_request rq) (a, w\<lparr>logged := logged w @ [LogAggregating rq]\<rparr>))"
        using step by (auto simp add: Dispatch_step_def FromAggRequests Sent aggregate_def Let_def)
      then show ?thesis
        using events_loop_invariant [of "(a, w\<lparr>logged := logged w @ [LogAggregating rq]\<rparr>)" env s "Events_request rq"] inv
        by simp
    qed
  next
    case ChannelClosed
    then show ?thesis
      using step by (simp add: Dispatch_step_def FromAggRequests aggregate_def split: if_splits)
  qed
next
  case (FromRulesRequests rv)
  then show ?thesis
    using step inv
    by (cases rv) (auto simp add: Dispatch_step_def replaceRules_def Let_def empty_only_when_sent_def)
next
  case (FromTicker now)
  then have "Aggregates a1 = fst (tidy_all now (Aggregates a) w)"
    using step by (auto simp add: Dispatch_step_def split: prod.splits)
  then show ?thesis
    using inv tidy_all_invariant [of "Aggregates a" now w] by (simp add: empty_only_when_sent_def)
qed


subsection \<open>Keys of the table, runs of the dispatch loop\<close>


lemma route_distinct:
  "distinct (map fst (Aggregates a)) \<Longrightarrow>
   distinct (map fst (Aggregates (fst (route env s e r (a, w)))))"
  by (simp add: route_table distinct_update)

lemma rules_loop_distinct:
  "distinct (map fst (Aggregates a)) \<Longrightarrow>
   distinct (map fst (Aggregates (fst (rules_loop env s e rules (a, w)))))"
  by (induction rules arbitrary: w) (simp_all add: Let_def route_distinct)

lemma events_loop_distinct:
  "distinct (map fst (Aggregates (fst aw))) \<Longrightarrow>
   distinct (map fst (Aggregates (fst (events_loop env s es aw))))"
proof (induction es arbitrary: aw)
  case Nil
  then show ?case by simp
next
  case (Cons e es)
  have "distinct (map fst (Aggregates (fst (rules_loop env s e (Rules (fst aw)) aw))))"
    using rules_loop_distinct [of "fst aw" env s e "Rules (fst aw)" "snd aw"] Cons.prems by simp
  then show ?case using Cons.IH by simp
qed

lemma Dispatch_step_cases:
  assumes step: "Dispatch_step env s sel (closed, a, w) = Inr (closed1, a1, w1)"
  shows "closed1 = closed \<and>
    ((\<exists>rq. sel = FromAggRequests (Sent rq) \<and> Rules a = [] \<and> a1 = a \<and> w1 = w) \<or>
     (\<exists>rq. sel = FromAggRequests (Sent rq) \<and> Rules a \<noteq> [] \<and>
        (a1, w1) = events_loop env s (Events_request rq) (a, w\<lparr>logged := logged w @ [LogAggregating rq]\<rparr>)) \<or>
     (\<exists>rq. sel = FromRulesRequests (Sent rq) \<and> a1 = a\<lparr>Rules := Rules_request rq\<rparr> \<and>
        w1 = w\<lparr>logged := logged w @ [LogReplacing (length (Rules_request rq))]\<rparr>) \<or>
     (\<exists>now. sel = FromTicker now \<and> a1 = a\<lparr>Aggregates := fst (tidy_all now (Aggregates a) w)\<rparr> \<and>
        w1 = snd (tidy_all now (Aggregates a) w)))"
proof (cases sel)
  case (FromAggRequests rv)
  then show ?thesis
    using step
    by (cases rv) (auto simp add: Dispatch_step_def aggregate_def Let_def split: if_splits)
next
  case (FromRulesRequests rv)
  then show ?thesis
    using step by (cases rv) (auto simp add: Dispatch_step_def replaceRules_def Let_def)
next
  case (FromTicker now)
  then show ?thesis
    using step by (auto simp add: Dispatch_step_def case_prod_beta)
qed

lemma Dispatch_step_distinct:
  assumes inv: "distinct (map fst (Aggregates a))"
    and step: "Dispatch_step env s sel (closed, a, w) = Inr (closed1, a1, w1)"
  shows "distinct (map fst (Aggregates a1))"
  using Dispatch_step_cases [OF step] inv
  apply (elim conjE disjE exE)
     apply simp
    apply (metis events_loop_distinct fst_conv)
   apply simp
  apply (simp add: tidy_all_keys)
  done

lemma Dispatch_loop_preserves:
  assumes pres: "\<And>sel closed a w closed1 a1 w1.
      P a \<Longrightarrow> Dispatch_step env s sel (closed, a, w) = Inr (closed1, a1, w1) \<Longrightarrow> P a1"
  shows "P (fst (snd st)) \<Longrightarrow>
   (\<forall>c aw. Dispatch_loop env s sels st = Waiting c aw \<longrightarrow> P (fst aw)) \<and>
   (\<forall>aw. Dispatch_loop env s sels st = SignalledClosed aw \<longrightarrow> P (fst aw))"
proof (induction sels arbitrary: st)
  case Nil
  then show ?case by auto
next
  case (Cons sel sels)
  show ?case
  proof (cases "fst st < 2")
    case False
    then show ?thesis using Cons.prems by auto
  next
    case True
    show ?thesis
    proof (cases "Dispatch_step env s sel st")
      case (Inl p)
      then show ?thesis using True by simp
    next
      case (Inr st1)
      obtain closed a w where st: "st = (closed, a, w)" by (cases st)
      obtain closed1 a1 w1 where st1: "st1 = (closed1, a1, w1)" by (cases st1)
      have "P a1"
        using pres [of a sel closed w closed1 a1 w1] Cons.prems Inr
        by (simp add: st st1)
      then show ?thesis
        using Cons.IH [of st1] True Inr by (simp add: st1)
    qed
  qed
qed

lemma route_ingests:
  "\<exists>inst. map_of (Aggregates (fst (route env s e r (a, w)))) (Fingerprint env e) = Some inst \<and>
     Rule inst = (case map_of (Aggregates a) (Fingerprint env e) of Some i \<Rightarrow> Rule i | None \<Rightarrow> r) \<and>
     Events inst =
       (case map_of (Aggregates a) (Fingerprint env e) of Some i \<Rightarrow> Events i | None \<Rightarrow> []) @ [e]"
  by (simp add: route_map_of SendNotification_fields Ingest_def split: option.splits)

lemma events_loop_member:
  "e \<in> set es \<Longrightarrow> \<exists>r\<in>set (Rules a). Handles env r e \<Longrightarrow>
   \<exists>inst. map_of (Aggregates (fst (events_loop env s es (a, w)))) (Fingerprint env e) = Some inst \<and>
          e \<in> set (Events inst)"
proof (induction es arbitrary: a w)
  case Nil
  then show ?case by simp
next
  case (Cons x es)
  obtain a1 w1 where step: "rules_loop env s x (Rules a) (a, w) = (a1, w1)"
    by (cases "rules_loop env s x (Rules a) (a, w)")
  have rules: "Rules a1 = Rules a"
    using rules_loop_Rules [of env s x "Rules a" "(a, w)"] step by simp
  show ?case
  proof (cases "e \<in> set es")
    case True
    then show ?thesis
      using Cons.IH [of a1 w1] Cons.prems(2) rules step by simp
  next
    case False
    then have ex: "x = e" using Cons.prems(1) by simp
    from Cons.prems(2) obtain pre r post
      where split: "Rules a = pre @ r # post" "Handles env r e" "\<forall>y\<in>set pre. \<not> Handles env y e"
      using split_list_first_prop [of "Rules a" "\<lambda>r. Handles env r e"] by blast
    have "rules_loop env s e (Rules a) (a, w) =
        route env s e r (a, w\<lparr>logged := logged w @ map (\<lambda>x. LogChecking x False) pre @ [LogChecking r True]\<rparr>)"
      using rules_loop_first_match [OF split(3) split(2)] split(1) by simp
    then obtain inst1 where inst1: "map_of (Aggregates a1) (Fingerprint env e) = Some inst1"
        "e \<in> set (Events inst1)"
      using step ex
        route_ingests [of env s e r a "w\<lparr>logged := logged w @ map (\<lambda>x. LogChecking x False) pre @ [LogChecking r True]\<rparr>"]
      by auto
    have "\<exists>y. map_of (Aggregates (fst (events_loop env s es (a1, w1)))) (Fingerprint env e) = Some y \<and>
        set (Events inst1) \<subseteq> set (Events y)"
      using inst1(1)
      by (rule events_loop_evolves [of "\<lambda>x y. set (Events x) \<subseteq> set (Events y)", rotated 3])
        (auto simp add: SendNotification_fields Ingest_def)
    then show ?thesis using inst1(2) step ex by auto
  qed
qed

lemma Dispatch_step_closure_panics:
  "Dispatch_step env s (FromAggRequests ChannelClosed) st = Inl NilPointerDereference"
  "Dispatch_step env s (FromRulesRequests ChannelClosed) st = Inl NilPointerDereference"
  by (cases st; simp add: Dispatch_step_def aggregate_def replaceRules_def case_prod_beta)+

lemma Dispatch_loop_never_counts:
  "fst st = 0 \<Longrightarrow> Dispatch_loop env s sels st \<noteq> SignalledClosed aw"
proof (induction sels arbitrary: st)
  case Nil
  then show ?case by simp
next
  case (Cons sel sels)
  show ?case
  proof (cases "Dispatch_step env s sel st")
    case (Inl p)
    then show ?thesis using Cons.prems by simp
  next
    case (Inr st1)
    obtain closed a w where st: "st = (closed, a, w)" by (cases st)
    obtain closed1 a1 w1 where st1: "st1 = (closed1, a1, w1)" by (cases st1)
    have "closed1 = closed"
      using Dispatch_step_cases [of env s sel closed a w closed1 a1 w1] Inr by (simp add: st st1)
    then show ?thesis using Cons.IH [of st1] Cons.prems Inr by (simp add: st st1)
  qed
qed


lemma fold_Ingest_state: "state (fold Ingest es r) = state r"
  by (induction es arbitrary: r) (simp_all add: Ingest_def)

lemma aggregate_as_step:
  "aggregate env req s (a, w) = Inr (resp, a1, w1) \<Longrightarrow>
   \<exists>rq. req = Some rq \<and>
     Dispatch_step env s (FromAggRequests (Sent rq)) (0, a, w) = Inr (0, a1, w1)"
  by (cases req) (auto simp add: Dispatch_step_def aggregate_def split: if_splits)

lemmas run_defs = Dispatch_def Dispatch_step_def aggregate_def replaceRules_def route_def
  SendNotification_def Ingest_def Tidy_def Handles_def NewAggregator_def zeroTime_def Let_def

lemmas ex_defs = ex_env_def ex_delivers_def ex_retryable_def ex_unretryable_def ex_e1_def
  ex_e2_def ex_world_def ex_sent_def ex_unsent_def ex_agg_def

section \<open>The claims\<close>

subsection \<open>C1: Tidy\<close>

lemma empty_only_when_sent_entry:
  "empty_only_when_sent a \<Longrightarrow> map_of (Aggregates a) fp = Some r \<Longrightarrow>
   Events r \<noteq> [] \<or> state r = aggSent"
  using map_of_SomeD [of "Aggregates a" fp r]
  by (auto simp add: empty_only_when_sent_def list_all_iff)

lemma Dispatch_reaches_empty_only_when_sent:
  assumes run: "Dispatch env s sels (NewAggregator, w) = Waiting c (a, w')"
  shows "empty_only_when_sent a"
proof -
  have "empty_only_when_sent (fst (snd (0 :: nat, NewAggregator, w)))"
    by (simp add: empty_only_when_sent_def NewAggregator_def)
  then have "\<forall>c aw. Dispatch_loop env s sels (0, NewAggregator, w) = Waiting c aw \<longrightarrow>
      empty_only_when_sent (fst aw)"
    using Dispatch_loop_preserves [of empty_only_when_sent env s "(0, NewAggregator, w)" sels]
      Dispatch_step_invariant [of _ env s]
    by blast
  then show ?thesis using run by (simp add: Dispatch_def)
qed

lemma sweep_step:
  "Dispatch_step env s (FromTicker now) (closed, a, w) =
     Inr (closed, a\<lparr>Aggregates := fst (tidy_all now (Aggregates a) w)\<rparr>,
          snd (tidy_all now (Aggregates a) w))"
  by (simp add: Dispatch_step_def case_prod_beta)

text \<open>
  Claim C1.  After \<open>Tidy\<close> at time \<open>t\<close> the event sequence of the instance is exactly the
  subsequence of its events created strictly after \<open>t\<close>; every other event is
  discarded.  When \<open>Tidy\<close> empties a sequence that held events, the state is \<open>aggSent\<close>
  afterwards, whatever it was before; when an event is retained the state is kept.  On
  a sequence that is empty already \<open>Tidy\<close> returns early and changes nothing; an instance
  with such a sequence is \<open>aggSent\<close> in every table the dispatch loop reaches from the
  new aggregator.  So for every instance that holds an event or is \<open>aggSent\<close>, and hence
  for every instance of a reached table, an empty retained sequence comes with the state
  \<open>aggSent\<close>.  A tick of the dispatch loop applies \<open>Tidy\<close> to the instance of every
  fingerprint of the table.
\<close>

theorem Tidy_retains_future_events:
  "Events (fst (Tidy t (r, w))) = filter (\<lambda>e. t < CreatedAt e) (Events r) \<and>
   (Events r \<noteq> [] \<and> filter (\<lambda>e. t < CreatedAt e) (Events r) = [] \<longrightarrow>
      state (fst (Tidy t (r, w))) = aggSent) \<and>
   (Events r = [] \<longrightarrow> fst (Tidy t (r, w)) = r) \<and>
   (filter (\<lambda>e. t < CreatedAt e) (Events r) \<noteq> [] \<longrightarrow>
      state (fst (Tidy t (r, w))) = state r) \<and>
   ((Events r \<noteq> [] \<or> state r = aggSent) \<and> filter (\<lambda>e. t < CreatedAt e) (Events r) = [] \<longrightarrow>
      state (fst (Tidy t (r, w))) = aggSent) \<and>
   (Dispatch env s sels (NewAggregator, w0) = Waiting c (a, w) \<and>
    map_of (Aggregates a) fp = Some r \<and> filter (\<lambda>e. t < CreatedAt e) (Events r) = [] \<longrightarrow>
      state (fst (Tidy t (r, w))) = aggSent) \<and>
   Dispatch_step env s (FromTicker now) (closed, a, w) =
     Inr (closed, a\<lparr>Aggregates := fst (tidy_all now (Aggregates a) w)\<rparr>,
          snd (tidy_all now (Aggregates a) w)) \<and>
   map_of (fst (tidy_all now (Aggregates a) w)) fp =
     map_option (\<lambda>x. fst (Tidy (now fp) (x, w))) (map_of (Aggregates a) fp)"
proof -
  have c1: "Events (fst (Tidy t (r, w))) = filter (\<lambda>e. t < CreatedAt e) (Events r)"
    by (simp add: Tidy_def Let_def)
  have c2: "Events r \<noteq> [] \<and> filter (\<lambda>e. t < CreatedAt e) (Events r) = [] \<longrightarrow>
      state (fst (Tidy t (r, w))) = aggSent"
    by (simp add: Tidy_def Let_def)
  have c3: "Events r = [] \<longrightarrow> fst (Tidy t (r, w)) = r"
    by (simp add: Tidy_def Let_def)
  have c4: "filter (\<lambda>e. t < CreatedAt e) (Events r) \<noteq> [] \<longrightarrow>
      state (fst (Tidy t (r, w))) = state r"
    by (simp add: Tidy_def Let_def)
  have c5: "(Events r \<noteq> [] \<or> state r = aggSent) \<and> filter (\<lambda>e. t < CreatedAt e) (Events r) = [] \<longrightarrow>
      state (fst (Tidy t (r, w))) = aggSent"
    by (auto simp add: Tidy_def Let_def)
  have c6: "Dispatch env s sels (NewAggregator, w0) = Waiting c (a, w) \<and>
    map_of (Aggregates a) fp = Some r \<and> filter (\<lambda>e. t < CreatedAt e) (Events r) = [] \<longrightarrow>
      state (fst (Tidy t (r, w))) = aggSent"
  proof (intro impI, elim conjE)
    assume run: "Dispatch env s sels (NewAggregator, w0) = Waiting c (a, w)"
      and entry: "map_of (Aggregates a) fp = Some r"
      and none: "filter (\<lambda>e. t < CreatedAt e) (Events r) = []"
    have "Events r \<noteq> [] \<or> state r = aggSent"
      using empty_only_when_sent_entry [OF Dispatch_reaches_empty_only_when_sent [OF run] entry] .
    then show "state (fst (Tidy t (r, w))) = aggSent"
      using c5 none by blast
  qed
  have c7: "Dispatch_step env s (FromTicker now) (closed, a, w) =
     Inr (closed, a\<lparr>Aggregates := fst (tidy_all now (Aggregates a) w)\<rparr>,
          snd (tidy_all now (Aggregates a) w))"
    by (rule sweep_step)
  have c8: "map_of (fst (tidy_all now (Aggregates a) w)) fp =
     map_option (\<lambda>x. fst (Tidy (now fp) (x, w))) (map_of (Aggregates a) fp)"
    by (rule tidy_all_map_of)
  show ?thesis using c1 c2 c3 c4 c5 c6 c7 c8 by (intro conjI)
qed

theorem Tidy_retains_future_events_witness:
  "Events ex_unsent \<noteq> [] \<and>
   filter (\<lambda>e. 200 < CreatedAt e) (Events ex_unsent) = [] \<and>
   state ex_unsent = aggUnsent \<and>
   state (fst (Tidy 200 (ex_unsent, ex_world))) = aggSent \<and>
   Events (ex_sent\<lparr>Events := []\<rparr>) = [] \<and>
   fst (Tidy 200 (ex_sent\<lparr>Events := []\<rparr>, ex_world)) = ex_sent\<lparr>Events := []\<rparr> \<and>
   filter (\<lambda>e. 100 < CreatedAt e) (Events (ex_unsent\<lparr>Events := [ex_e1, ex_e2]\<rparr>)) = [ex_e2] \<and>
   Events (fst (Tidy 100 (ex_unsent\<lparr>Events := [ex_e1, ex_e2]\<rparr>, ex_world))) = [ex_e2] \<and>
   state (fst (Tidy 100 (ex_unsent\<lparr>Events := [ex_e1, ex_e2]\<rparr>, ex_world))) = aggUnsent \<and>
   Dispatch ex_env ex_retryable
       [FromRulesRequests (Sent \<lparr>Rules_request = [3, 1, 2]\<rparr>),
        FromAggRequests (Sent \<lparr>Events_request = [ex_e1]\<rparr>)]
       (NewAggregator, ex_world) =
     Waiting 0
       (\<lparr>Rules = [3, 1, 2], Aggregates = [(9, ex_unsent\<lparr>Rule := 1\<rparr>)]\<rparr>,
        \<lparr>logged = [LogReplacing 3, LogAggregating \<lparr>Events_request = [ex_e1]\<rparr>,
                   LogChecking 3 False, LogChecking 1 True],
         received = [\<lparr>Rule_summary = 1, Events_summary = [ex_e1]\<rparr>]\<rparr>) \<and>
   state (fst (Tidy 200 (ex_unsent\<lparr>Rule := 1\<rparr>,
        \<lparr>logged = [LogReplacing 3, LogAggregating \<lparr>Events_request = [ex_e1]\<rparr>,
                   LogChecking 3 False, LogChecking 1 True],
         received = [\<lparr>Rule_summary = 1, Events_summary = [ex_e1]\<rparr>]\<rparr>))) = aggSent \<and>
   Dispatch_step ex_env ex_retryable (FromTicker (\<lambda>fp. 200))
       (0, \<lparr>Rules = [3, 1, 2], Aggregates = [(9, ex_unsent\<lparr>Rule := 1\<rparr>)]\<rparr>, ex_world) =
     Inr (0, \<lparr>Rules = [3, 1, 2],
              Aggregates = [(9, \<lparr>Rule = 1, Events = [], EndsAt = 0, state = aggSent\<rparr>)]\<rparr>,
          \<lparr>logged = [LogTidying], received = []\<rparr>)"
proof -
  let ?a = "\<lparr>Rules = [3, 1, 2], Aggregates = [(9, ex_unsent\<lparr>Rule := 1\<rparr>)]\<rparr>"
  let ?w = "\<lparr>logged = [LogReplacing 3, LogAggregating \<lparr>Events_request = [ex_e1]\<rparr>,
                   LogChecking 3 False, LogChecking 1 True],
         received = [\<lparr>Rule_summary = 1, Events_summary = [ex_e1]\<rparr>]\<rparr>"
  let ?sels = "[FromRulesRequests (Sent \<lparr>Rules_request = [3, 1, 2]\<rparr>),
        FromAggRequests (Sent \<lparr>Events_request = [ex_e1]\<rparr>)]"
  have nonempty: "Events ex_unsent \<noteq> []"
    and past: "filter (\<lambda>e. 200 < CreatedAt e) (Events ex_unsent) = []"
    and past': "filter (\<lambda>e. 200 < CreatedAt e) (Events (ex_unsent\<lparr>Rule := 1\<rparr>)) = []"
    and was_unsent: "state ex_unsent = aggUnsent"
    and empty: "Events (ex_sent\<lparr>Events := []\<rparr>) = []"
    and future: "filter (\<lambda>e. 100 < CreatedAt e) (Events (ex_unsent\<lparr>Events := [ex_e1, ex_e2]\<rparr>)) = [ex_e2]"
    and unsent: "state (ex_unsent\<lparr>Events := [ex_e1, ex_e2]\<rparr>) = aggUnsent"
    and entry: "map_of (Aggregates ?a) 9 = Some (ex_unsent\<lparr>Rule := 1\<rparr>)"
    by (simp_all add: ex_defs)
  have run: "Dispatch ex_env ex_retryable ?sels (NewAggregator, ex_world) = Waiting 0 (?a, ?w)"
    by (simp add: run_defs ex_defs)
  have swept: "(?a\<lparr>Aggregates := fst (tidy_all (\<lambda>fp. 200) (Aggregates ?a) ex_world)\<rparr>,
               snd (tidy_all (\<lambda>fp. 200) (Aggregates ?a) ex_world)) =
      (\<lparr>Rules = [3, 1, 2],
              Aggregates = [(9, \<lparr>Rule = 1, Events = [], EndsAt = 0, state = aggSent\<rparr>)]\<rparr>,
          \<lparr>logged = [LogTidying], received = []\<rparr>)"
    by (simp add: run_defs ex_defs)
  have forced: "state (fst (Tidy 200 (ex_unsent, ex_world))) = aggSent"
    using Tidy_retains_future_events [of 200 ex_unsent ex_world] nonempty past by blast
  have early: "fst (Tidy 200 (ex_sent\<lparr>Events := []\<rparr>, ex_world)) = ex_sent\<lparr>Events := []\<rparr>"
    using Tidy_retains_future_events [of 200 "ex_sent\<lparr>Events := []\<rparr>" ex_world] empty by blast
  note at_100 = Tidy_retains_future_events
    [where t = 100 and r = "ex_unsent\<lparr>Events := [ex_e1, ex_e2]\<rparr>" and w = ex_world]
  have kept: "Events (fst (Tidy 100 (ex_unsent\<lparr>Events := [ex_e1, ex_e2]\<rparr>, ex_world))) = [ex_e2]"
    using at_100 [THEN conjunct1] future by simp
  have kept': "state (fst (Tidy 100 (ex_unsent\<lparr>Events := [ex_e1, ex_e2]\<rparr>, ex_world))) = aggUnsent"
    using at_100 [THEN conjunct2, THEN conjunct2, THEN conjunct2, THEN conjunct1] future unsent
    by simp
  have reached: "state (fst (Tidy 200 (ex_unsent\<lparr>Rule := 1\<rparr>, ?w))) = aggSent"
    using Tidy_retains_future_events
      [where t = 200 and r = "ex_unsent\<lparr>Rule := 1\<rparr>" and w = ?w and env = ex_env
         and s = ex_retryable and sels = ?sels and ?w0.0 = ex_world and c = 0 and a = ?a and fp = 9]
      run entry past'
    by blast
  have sweep: "Dispatch_step ex_env ex_retryable (FromTicker (\<lambda>fp. 200)) (0, ?a, ex_world) =
     Inr (0, \<lparr>Rules = [3, 1, 2],
              Aggregates = [(9, \<lparr>Rule = 1, Events = [], EndsAt = 0, state = aggSent\<rparr>)]\<rparr>,
          \<lparr>logged = [LogTidying], received = []\<rparr>)"
    using Tidy_retains_future_events
      [where env = ex_env and s = ex_retryable and now = "\<lambda>fp. 200" and closed = 0 and a = ?a
         and w = ex_world,
       THEN conjunct2, THEN conjunct2, THEN conjunct2, THEN conjunct2, THEN conjunct2,
       THEN conjunct2, THEN conjunct1]
      swept
    by simp
  show ?thesis
    using nonempty past was_unsent forced empty early future kept kept' run reached sweep
    by (intro conjI)
qed

subsection \<open>C2: ingestion without rules\<close>

text \<open>
  Claim C2.  When the rule list is empty, \<open>aggregate\<close> answers the request with the error
  \<open>No aggregation rules\<close> and returns the aggregator (rule list, table, every instance)
  and the world (log, receiver) as they were: no event of the batch is looked at.  The
  same holds for the turn of the dispatch loop that serves the request.
\<close>

theorem aggregate_without_rules:
  "Rules a = [] \<longrightarrow>
     aggregate env (Some rq) s (a, w) = Inr (\<lparr>Err = Some ''No aggregation rules''\<rparr>, a, w) \<and>
     Dispatch_step env s (FromAggRequests (Sent rq)) (closed, a, w) = Inr (closed, a, w)"
  by (simp add: aggregate_def Dispatch_step_def)

theorem aggregate_without_rules_witness:
  "Rules NewAggregator = [] \<and>
   aggregate ex_env (Some \<lparr>Events_request = [ex_e1, ex_e2]\<rparr>) ex_delivers (NewAggregator, ex_world) =
     Inr (\<lparr>Err = Some ''No aggregation rules''\<rparr>, NewAggregator, ex_world)"
  using aggregate_without_rules
    [of NewAggregator ex_env "\<lparr>Events_request = [ex_e1, ex_e2]\<rparr>" ex_delivers ex_world 0]
  by (simp add: NewAggregator_def)

subsection \<open>C3: the first matching rule\<close>

lemma aggregate_runs_events_loop:
  "Rules a \<noteq> [] \<Longrightarrow>
   aggregate env (Some rq) s (a, w) =
     Inr (\<lparr>Err = None\<rparr>,
          events_loop env s (Events_request rq) (a, w\<lparr>logged := logged w @ [LogAggregating rq]\<rparr>))"
  by (simp add: aggregate_def Let_def)

text \<open>
  Claim C3.  With a rule list that is not empty, \<open>aggregate\<close> (and the turn of the
  dispatch loop that serves the request) answers without error and runs the loop over
  the events of the batch, in order.  For an event of the batch, let the rule list be
  \<open>pre @ r # post\<close>, where no rule of \<open>pre\<close> handles the event and \<open>r\<close> does.  Then the
  rules of \<open>pre\<close> and \<open>r\<close> are checked, in this order (one log line each), the event is
  routed with \<open>r\<close>, and the loop goes on with the next event: the result does not
  mention \<open>post\<close>, whose rules are never checked.  When no rule of the list handles the
  event, every rule is checked, in order, and nothing else happens: the aggregator is the
  same and the receiver is not called.
\<close>

theorem first_matching_rule_owns_event:
  "(Rules a \<noteq> [] \<longrightarrow>
      aggregate env (Some rq) s (a, w) =
        Inr (\<lparr>Err = None\<rparr>,
             events_loop env s (Events_request rq)
               (a, w\<lparr>logged := logged w @ [LogAggregating rq]\<rparr>)) \<and>
      Dispatch_step env s (FromAggRequests (Sent rq)) (closed, a, w) =
        Inr (closed,
             events_loop env s (Events_request rq)
               (a, w\<lparr>logged := logged w @ [LogAggregating rq]\<rparr>))) \<and>
   ((\<forall>x\<in>set pre. \<not> Handles env x e) \<and> Handles env r e \<and> Rules a = pre @ r # post \<longrightarrow>
      rules_loop env s e (Rules a) (a, w) =
        route env s e r
          (a, w\<lparr>logged := logged w @ map (\<lambda>x. LogChecking x False) pre @ [LogChecking r True]\<rparr>) \<and>
      events_loop env s (e # rest) (a, w) =
        events_loop env s rest (route env s e r
          (a, w\<lparr>logged := logged w @ map (\<lambda>x. LogChecking x False) pre @ [LogChecking r True]\<rparr>)) \<and>
      (Events_request rq = e # rest \<longrightarrow>
         aggregate env (Some rq) s (a, w) =
           Inr (\<lparr>Err = None\<rparr>,
                events_loop env s rest (route env s e r
                  (a, w\<lparr>logged := logged w @ LogAggregating rq #
                         map (\<lambda>x. LogChecking x False) pre @ [LogChecking r True]\<rparr>))))) \<and>
   ((\<forall>x\<in>set (Rules a). \<not> Handles env x e) \<longrightarrow>
      rules_loop env s e (Rules a) (a, w) =
        (a, w\<lparr>logged := logged w @ map (\<lambda>x. LogChecking x False) (Rules a)\<rparr>) \<and>
      received (snd (rules_loop env s e (Rules a) (a, w))) = received w \<and>
      events_loop env s (e # rest) (a, w) =
        events_loop env s rest (a, w\<lparr>logged := logged w @ map (\<lambda>x. LogChecking x False) (Rules a)\<rparr>) \<and>
      (Rules a \<noteq> [] \<and> Events_request rq = e # rest \<longrightarrow>
         aggregate env (Some rq) s (a, w) =
           Inr (\<lparr>Err = None\<rparr>,
                events_loop env s rest
                  (a, w\<lparr>logged := logged w @ LogAggregating rq #
                         map (\<lambda>x. LogChecking x False) (Rules a)\<rparr>))))"
proof -
  have c1: "Rules a \<noteq> [] \<longrightarrow>
      aggregate env (Some rq) s (a, w) =
        Inr (\<lparr>Err = None\<rparr>,
             events_loop env s (Events_request rq)
               (a, w\<lparr>logged := logged w @ [LogAggregating rq]\<rparr>)) \<and>
      Dispatch_step env s (FromAggRequests (Sent rq)) (closed, a, w) =
        Inr (closed,
             events_loop env s (Events_request rq)
               (a, w\<lparr>logged := logged w @ [LogAggregating rq]\<rparr>))"
    by (simp add: aggregate_runs_events_loop Dispatch_step_def)
  have c2: "(\<forall>x\<in>set pre. \<not> Handles env x e) \<and> Handles env r e \<and> Rules a = pre @ r # post \<longrightarrow>
      rules_loop env s e (Rules a) (a, w) =
        route env s e r
          (a, w\<lparr>logged := logged w @ map (\<lambda>x. LogChecking x False) pre @ [LogChecking r True]\<rparr>) \<and>
      events_loop env s (e # rest) (a, w) =
        events_loop env s rest (route env s e r
          (a, w\<lparr>logged := logged w @ map (\<lambda>x. LogChecking x False) pre @ [LogChecking r True]\<rparr>)) \<and>
      (Events_request rq = e # rest \<longrightarrow>
         aggregate env (Some rq) s (a, w) =
           Inr (\<lparr>Err = None\<rparr>,
                events_loop env s rest (route env s e r
                  (a, w\<lparr>logged := logged w @ LogAggregating rq #
                         map (\<lambda>x. LogChecking x False) pre @ [LogChecking r True]\<rparr>))))"
    by (simp add: rules_loop_first_match aggregate_runs_events_loop)
  have c3: "(\<forall>x\<in>set (Rules a). \<not> Handles env x e) \<longrightarrow>
      rules_loop env s e (Rules a) (a, w) =
        (a, w\<lparr>logged := logged w @ map (\<lambda>x. LogChecking x False) (Rules a)\<rparr>) \<and>
      received (snd (rules_loop env s e (Rules a) (a, w))) = received w \<and>
      events_loop env s (e # rest) (a, w) =
        events_loop env s rest (a, w\<lparr>logged := logged w @ map (\<lambda>x. LogChecking x False) (Rules a)\<rparr>) \<and>
      (Rules a \<noteq> [] \<and> Events_request rq = e # rest \<longrightarrow>
         aggregate env (Some rq) s (a, w) =
           Inr (\<lparr>Err = None\<rparr>,
                events_loop env s rest
                  (a, w\<lparr>logged := logged w @ LogAggregating rq #
                         map (\<lambda>x. LogChecking x False) (Rules a)\<rparr>)))"
    by (simp add: rules_loop_no_match aggregate_runs_events_loop)
  show ?thesis using c1 c2 c3 by (intro conjI)
qed

theorem first_matching_rule_owns_event_witness:
  "\<not> Handles ex_env 3 ex_e1 \<and> Handles ex_env 1 ex_e1 \<and> Handles ex_env 2 ex_e1 \<and>
   \<not> Handles ex_env 4 ex_e1 \<and>
   aggregate ex_env (Some \<lparr>Events_request = [ex_e1, ex_e2]\<rparr>) ex_delivers
       (\<lparr>Rules = [3, 1, 2], Aggregates = []\<rparr>, ex_world) =
     Inr (\<lparr>Err = None\<rparr>,
          \<lparr>Rules = [3, 1, 2],
            Aggregates = [(9, \<lparr>Rule = 1, Events = [ex_e1, ex_e2], EndsAt = 0, state = aggSent\<rparr>)]\<rparr>,
          \<lparr>logged = [LogAggregating \<lparr>Events_request = [ex_e1, ex_e2]\<rparr>,
                     LogChecking 3 False, LogChecking 1 True,
                     LogChecking 3 False, LogChecking 1 True],
           received = [\<lparr>Rule_summary = 1, Events_summary = [ex_e1]\<rparr>]\<rparr>) \<and>
   Dispatch_step ex_env ex_delivers (FromAggRequests (Sent \<lparr>Events_request = [ex_e1, ex_e2]\<rparr>))
       (0, \<lparr>Rules = [3, 1, 2], Aggregates = []\<rparr>, ex_world) =
     Inr (0,
          \<lparr>Rules = [3, 1, 2],
            Aggregates = [(9, \<lparr>Rule = 1, Events = [ex_e1, ex_e2], EndsAt = 0, state = aggSent\<rparr>)]\<rparr>,
          \<lparr>logged = [LogAggregating \<lparr>Events_request = [ex_e1, ex_e2]\<rparr>,
                     LogChecking 3 False, LogChecking 1 True,
                     LogChecking 3 False, LogChecking 1 True],
           received = [\<lparr>Rule_summary = 1, Events_summary = [ex_e1]\<rparr>]\<rparr>) \<and>
   rules_loop ex_env ex_delivers ex_e1 [3, 1, 2] (\<lparr>Rules = [3, 1, 2], Aggregates = []\<rparr>, ex_world) =
     (\<lparr>Rules = [3, 1, 2],
       Aggregates = [(9, \<lparr>Rule = 1, Events = [ex_e1], EndsAt = 0, state = aggSent\<rparr>)]\<rparr>,
      \<lparr>logged = [LogChecking 3 False, LogChecking 1 True],
       received = [\<lparr>Rule_summary = 1, Events_summary = [ex_e1]\<rparr>]\<rparr>) \<and>
   aggregate ex_env (Some \<lparr>Events_request = [ex_e1]\<rparr>) ex_delivers
       (\<lparr>Rules = [3, 4], Aggregates = []\<rparr>, ex_world) =
     Inr (\<lparr>Err = None\<rparr>,
          \<lparr>Rules = [3, 4], Aggregates = []\<rparr>,
          \<lparr>logged = [LogAggregating \<lparr>Events_request = [ex_e1]\<rparr>,
                     LogChecking 3 False, LogChecking 4 False],
           received = []\<rparr>) \<and>
   rules_loop ex_env ex_delivers ex_e1 [3, 4] (\<lparr>Rules = [3, 4], Aggregates = []\<rparr>, ex_world) =
     (\<lparr>Rules = [3, 4], Aggregates = []\<rparr>,
      \<lparr>logged = [LogChecking 3 False, LogChecking 4 False], received = []\<rparr>)"
proof -
  let ?a = "\<lparr>Rules = [3, 1, 2], Aggregates = []\<rparr>"
  let ?rq = "\<lparr>Events_request = [ex_e1, ex_e2]\<rparr>"
  let ?b = "\<lparr>Rules = [3, 4], Aggregates = []\<rparr>"
  let ?rq' = "\<lparr>Events_request = [ex_e1]\<rparr>"
  have no3: "\<not> Handles ex_env 3 ex_e1" and yes1: "Handles ex_env 1 ex_e1"
    and yes2: "Handles ex_env 2 ex_e1" and no4: "\<not> Handles ex_env 4 ex_e1"
    and pre: "\<forall>x\<in>set [3]. \<not> Handles ex_env x ex_e1"
    and none: "\<forall>x\<in>set (Rules ?b). \<not> Handles ex_env x ex_e1"
    by (simp_all add: ex_defs Handles_def)
  have rules: "Rules ?a \<noteq> []" "Rules ?a = [3] @ 1 # [2]" "Rules ?b \<noteq> []"
    and batch: "Events_request ?rq = ex_e1 # [ex_e2]" "Events_request ?rq' = ex_e1 # []"
    by simp_all
  note matched = first_matching_rule_owns_event
    [where env = ex_env and s = ex_delivers and a = ?a and w = ex_world and rq = ?rq
       and closed = 0 and pre = "[3]" and r = 1 and post = "[2]" and e = ex_e1
       and rest = "[ex_e2]"]
  note unmatched = first_matching_rule_owns_event
    [where env = ex_env and s = ex_delivers and a = ?b and w = ex_world and rq = ?rq'
       and e = ex_e1 and rest = "[]"]
  have whole: "aggregate ex_env (Some ?rq) ex_delivers (?a, ex_world) =
      Inr (\<lparr>Err = None\<rparr>, events_loop ex_env ex_delivers (Events_request ?rq)
        (?a, ex_world\<lparr>logged := logged ex_world @ [LogAggregating ?rq]\<rparr>))"
    and turn: "Dispatch_step ex_env ex_delivers (FromAggRequests (Sent ?rq)) (0, ?a, ex_world) =
      Inr (0, events_loop ex_env ex_delivers (Events_request ?rq)
        (?a, ex_world\<lparr>logged := logged ex_world @ [LogAggregating ?rq]\<rparr>))"
    using matched rules(1) by blast+
  have first: "rules_loop ex_env ex_delivers ex_e1 (Rules ?a) (?a, ex_world) =
      route ex_env ex_delivers ex_e1 1
        (?a, ex_world\<lparr>logged := logged ex_world @ map (\<lambda>x. LogChecking x False) [3] @
                                  [LogChecking 1 True]\<rparr>)"
    and first_agg: "aggregate ex_env (Some ?rq) ex_delivers (?a, ex_world) =
      Inr (\<lparr>Err = None\<rparr>,
           events_loop ex_env ex_delivers [ex_e2] (route ex_env ex_delivers ex_e1 1
             (?a, ex_world\<lparr>logged := logged ex_world @ LogAggregating ?rq #
                    map (\<lambda>x. LogChecking x False) [3] @ [LogChecking 1 True]\<rparr>)))"
    using matched pre yes1 rules(2) batch(1) by blast+
  have nothing: "rules_loop ex_env ex_delivers ex_e1 (Rules ?b) (?b, ex_world) =
      (?b, ex_world\<lparr>logged := logged ex_world @ map (\<lambda>x. LogChecking x False) (Rules ?b)\<rparr>)"
    and nothing_agg: "aggregate ex_env (Some ?rq') ex_delivers (?b, ex_world) =
      Inr (\<lparr>Err = None\<rparr>,
           events_loop ex_env ex_delivers []
             (?b, ex_world\<lparr>logged := logged ex_world @ LogAggregating ?rq' #
                    map (\<lambda>x. LogChecking x False) (Rules ?b)\<rparr>))"
    using unmatched none rules(3) batch(2) by blast+
  have v1: "aggregate ex_env (Some ?rq) ex_delivers (?a, ex_world) =
     Inr (\<lparr>Err = None\<rparr>,
          \<lparr>Rules = [3, 1, 2],
            Aggregates = [(9, \<lparr>Rule = 1, Events = [ex_e1, ex_e2], EndsAt = 0, state = aggSent\<rparr>)]\<rparr>,
          \<lparr>logged = [LogAggregating ?rq, LogChecking 3 False, LogChecking 1 True,
                     LogChecking 3 False, LogChecking 1 True],
           received = [\<lparr>Rule_summary = 1, Events_summary = [ex_e1]\<rparr>]\<rparr>)"
    unfolding first_agg by (simp add: run_defs ex_defs)
  have v2: "Dispatch_step ex_env ex_delivers (FromAggRequests (Sent ?rq)) (0, ?a, ex_world) =
     Inr (0,
          \<lparr>Rules = [3, 1, 2],
            Aggregates = [(9, \<lparr>Rule = 1, Events = [ex_e1, ex_e2], EndsAt = 0, state = aggSent\<rparr>)]\<rparr>,
          \<lparr>logged = [LogAggregating ?rq, LogChecking 3 False, LogChecking 1 True,
                     LogChecking 3 False, LogChecking 1 True],
           received = [\<lparr>Rule_summary = 1, Events_summary = [ex_e1]\<rparr>]\<rparr>)"
    unfolding turn by (simp add: run_defs ex_defs)
  have v3: "rules_loop ex_env ex_delivers ex_e1 [3, 1, 2] (?a, ex_world) =
     (\<lparr>Rules = [3, 1, 2],
       Aggregates = [(9, \<lparr>Rule = 1, Events = [ex_e1], EndsAt = 0, state = aggSent\<rparr>)]\<rparr>,
      \<lparr>logged = [LogChecking 3 False, LogChecking 1 True],
       received = [\<lparr>Rule_summary = 1, Events_summary = [ex_e1]\<rparr>]\<rparr>)"
    using first by (simp add: run_defs ex_defs)
  have v4: "aggregate ex_env (Some ?rq') ex_delivers (?b, ex_world) =
     Inr (\<lparr>Err = None\<rparr>, ?b,
          \<lparr>logged = [LogAggregating ?rq', LogChecking 3 False, LogChecking 4 False],
           received = []\<rparr>)"
    unfolding nothing_agg by (simp add: run_defs ex_defs)
  have v5: "rules_loop ex_env ex_delivers ex_e1 [3, 4] (?b, ex_world) =
     (?b, \<lparr>logged = [LogChecking 3 False, LogChecking 4 False], received = []\<rparr>)"
    using nothing by (simp add: run_defs ex_defs)
  show ?thesis
    using no3 yes1 yes2 no4 v1 v2 v3 v4 v5 whole by (intro conjI)
qed

subsection \<open>C4: the dispatch state only moves forward\<close>

text \<open>
  Claim C4.  \<open>Ingest\<close> keeps the dispatch state; \<open>Tidy\<close> and \<open>SendNotification\<close> keep an
  instance that is \<open>aggSent\<close> in that state (so the only change any of them makes is from
  \<open>aggUnsent\<close> to \<open>aggSent\<close>); an instance of the table that is \<open>aggSent\<close> is still in the
  table and \<open>aggSent\<close> after \<open>aggregate\<close>, and after any number of turns of the dispatch
  loop.  On an instance that is \<open>aggSent\<close>, \<open>SendNotification\<close> returns the instance and
  the world as they are, so the receiver is not called, also after any further calls of
  \<open>Ingest\<close>; and an event routed to such an instance leaves the world as it is.
\<close>

theorem dispatch_state_monotone:
  "state (Ingest e r) = state r \<and>
   (state r = aggSent \<longrightarrow> state (fst (Tidy t (r, w))) = aggSent) \<and>
   (state r = aggSent \<longrightarrow> SendNotification s (r, w) = (r, w)) \<and>
   (state r = aggSent \<longrightarrow>
      SendNotification s (fold Ingest es r, w) = (fold Ingest es r, w)) \<and>
   (map_of (Aggregates a) fp = Some r \<and> state r = aggSent \<and>
    aggregate env req s (a, w) = Inr (resp, a', w') \<longrightarrow>
      (\<exists>r'. map_of (Aggregates a') fp = Some r' \<and> state r' = aggSent)) \<and>
   (map_of (Aggregates a) fp = Some r \<and> state r = aggSent \<and>
    Dispatch_loop env s sels (closed, a, w) = Waiting c (a'', w'') \<longrightarrow>
      (\<exists>r''. map_of (Aggregates a'') fp = Some r'' \<and> state r'' = aggSent)) \<and>
   (map_of (Aggregates a) (Fingerprint env e) = Some r \<and> state r = aggSent \<longrightarrow>
      snd (route env s e rl (a, w)) = w)"
proof -
  let ?R = "\<lambda>x y. state x = aggSent \<longrightarrow> state y = aggSent"
  have send: "\<And>x e w. ?R x (fst (SendNotification s (Ingest e x, w)))"
    by (simp add: SendNotification_def Ingest_def)
  have tidy: "\<And>x t w. ?R x (fst (Tidy t (x, w)))"
    by (simp add: Tidy_state_mono)
  have step: "\<exists>y. map_of (Aggregates a') fp = Some y \<and> state y = aggSent"
    if present: "map_of (Aggregates a0) fp = Some x" and sent: "state x = aggSent"
      and run: "Dispatch_step env s sel (c0, a0, w0) = Inr (c', a', w')"
    for a0 x sel c0 w0 c' a' w'
  proof -
    have "\<exists>y. map_of (Aggregates a') fp = Some y \<and> ?R x y"
    proof (rule Dispatch_step_evolves [of ?R s a0 fp x env sel c0 w0 c' a' w'])
      show "\<And>x. ?R x x" by simp
      show "\<And>x y z. ?R x y \<Longrightarrow> ?R y z \<Longrightarrow> ?R x z" by simp
      show "\<And>x e w. ?R x (fst (SendNotification s (Ingest e x, w)))" by (rule send)
      show "\<And>x t w. ?R x (fst (Tidy t (x, w)))" by (rule tidy)
      show "map_of (Aggregates a0) fp = Some x" by (rule present)
      show "Dispatch_step env s sel (c0, a0, w0) = Inr (c', a', w')" by (rule run)
    qed
    then show ?thesis using sent by simp
  qed
  have c1: "state (Ingest e r) = state r"
    by (simp add: Ingest_def)
  have c2: "state r = aggSent \<longrightarrow> state (fst (Tidy t (r, w))) = aggSent"
    by (simp add: Tidy_state_mono)
  have c3: "state r = aggSent \<longrightarrow> SendNotification s (r, w) = (r, w)"
    by (simp add: SendNotification_sent)
  have c4: "state r = aggSent \<longrightarrow>
      SendNotification s (fold Ingest es r, w) = (fold Ingest es r, w)"
    by (simp add: SendNotification_sent fold_Ingest_state)
  have c5: "map_of (Aggregates a) fp = Some r \<and> state r = aggSent \<and>
      aggregate env req s (a, w) = Inr (resp, a', w') \<longrightarrow>
      (\<exists>r'. map_of (Aggregates a') fp = Some r' \<and> state r' = aggSent)"
  proof (intro impI, elim conjE)
    assume present: "map_of (Aggregates a) fp = Some r" and sent: "state r = aggSent"
      and run: "aggregate env req s (a, w) = Inr (resp, a', w')"
    from aggregate_as_step [OF run] obtain rq
      where "Dispatch_step env s (FromAggRequests (Sent rq)) (0, a, w) = Inr (0, a', w')"
      by blast
    then show "\<exists>r'. map_of (Aggregates a') fp = Some r' \<and> state r' = aggSent"
      by (rule step [OF present sent])
  qed
  have c6: "map_of (Aggregates a) fp = Some r \<and> state r = aggSent \<and>
      Dispatch_loop env s sels (closed, a, w) = Waiting c (a'', w'') \<longrightarrow>
      (\<exists>r''. map_of (Aggregates a'') fp = Some r'' \<and> state r'' = aggSent)"
  proof (intro impI, elim conjE)
    assume present: "map_of (Aggregates a) fp = Some r" and sent: "state r = aggSent"
      and run: "Dispatch_loop env s sels (closed, a, w) = Waiting c (a'', w'')"
    let ?P = "\<lambda>a. \<exists>y. map_of (Aggregates a) fp = Some y \<and> state y = aggSent"
    have "?P (fst (snd (closed, a, w)))" using present sent by simp
    then have "\<forall>c aw. Dispatch_loop env s sels (closed, a, w) = Waiting c aw \<longrightarrow> ?P (fst aw)"
      using Dispatch_loop_preserves [of ?P env s "(closed, a, w)" sels] step by blast
    then show "\<exists>r''. map_of (Aggregates a'') fp = Some r'' \<and> state r'' = aggSent"
      using run by simp
  qed
  have c7: "map_of (Aggregates a) (Fingerprint env e) = Some r \<and> state r = aggSent \<longrightarrow>
      snd (route env s e rl (a, w)) = w"
    by (simp add: route_snd SendNotification_def Ingest_def)
  show ?thesis using c1 c2 c3 c4 c5 c6 c7 by (intro conjI)
qed

theorem dispatch_state_monotone_witness:
  "state ex_sent = aggSent \<and>
   state (fst (Tidy 200 (ex_sent, ex_world))) = aggSent \<and>
   SendNotification ex_unretryable (ex_sent, ex_world) = (ex_sent, ex_world) \<and>
   SendNotification ex_unretryable (fold Ingest [ex_e2, ex_e1] ex_sent, ex_world) =
     (fold Ingest [ex_e2, ex_e1] ex_sent, ex_world) \<and>
   map_of (Aggregates ex_agg) 9 = Some ex_sent \<and>
   aggregate ex_env (Some \<lparr>Events_request = [ex_e2]\<rparr>) ex_delivers (ex_agg, ex_world) =
     Inr (\<lparr>Err = None\<rparr>,
          \<lparr>Rules = [3, 1, 2], Aggregates = [(9, ex_sent\<lparr>Events := [ex_e1, ex_e2]\<rparr>)]\<rparr>,
          \<lparr>logged = [LogAggregating \<lparr>Events_request = [ex_e2]\<rparr>, LogChecking 3 False,
                     LogChecking 1 True],
           received = []\<rparr>) \<and>
   (\<exists>r'. map_of (Aggregates \<lparr>Rules = [3, 1, 2],
                     Aggregates = [(9, ex_sent\<lparr>Events := [ex_e1, ex_e2]\<rparr>)]\<rparr>) 9 = Some r' \<and>
         state r' = aggSent) \<and>
   Dispatch_loop ex_env ex_delivers
       [FromAggRequests (Sent \<lparr>Events_request = [ex_e2]\<rparr>), FromTicker (\<lambda>fp. 200)]
       (0, ex_agg, ex_world) =
     Waiting 0
       (\<lparr>Rules = [3, 1, 2], Aggregates = [(9, ex_sent\<lparr>Events := []\<rparr>)]\<rparr>,
        \<lparr>logged = [LogAggregating \<lparr>Events_request = [ex_e2]\<rparr>, LogChecking 3 False,
                   LogChecking 1 True, LogTidying],
         received = []\<rparr>) \<and>
   (\<exists>r''. map_of (Aggregates \<lparr>Rules = [3, 1, 2],
                      Aggregates = [(9, ex_sent\<lparr>Events := []\<rparr>)]\<rparr>) 9 = Some r'' \<and>
          state r'' = aggSent) \<and>
   map_of (Aggregates ex_agg) (Fingerprint ex_env ex_e2) = Some ex_sent \<and>
   snd (route ex_env ex_delivers ex_e2 1 (ex_agg, ex_world)) = ex_world"
proof -
  have sent: "state ex_sent = aggSent"
    and present: "map_of (Aggregates ex_agg) 9 = Some ex_sent"
    and present': "map_of (Aggregates ex_agg) (Fingerprint ex_env ex_e2) = Some ex_sent"
    by (simp_all add: ex_defs)
  have agg: "aggregate ex_env (Some \<lparr>Events_request = [ex_e2]\<rparr>) ex_delivers (ex_agg, ex_world) =
     Inr (\<lparr>Err = None\<rparr>,
          \<lparr>Rules = [3, 1, 2], Aggregates = [(9, ex_sent\<lparr>Events := [ex_e1, ex_e2]\<rparr>)]\<rparr>,
          \<lparr>logged = [LogAggregating \<lparr>Events_request = [ex_e2]\<rparr>, LogChecking 3 False,
                     LogChecking 1 True],
           received = []\<rparr>)"
    by (simp add: run_defs ex_defs)
  have loop: "Dispatch_loop ex_env ex_delivers
       [FromAggRequests (Sent \<lparr>Events_request = [ex_e2]\<rparr>), FromTicker (\<lambda>fp. 200)]
       (0, ex_agg, ex_world) =
     Waiting 0
       (\<lparr>Rules = [3, 1, 2], Aggregates = [(9, ex_sent\<lparr>Events := []\<rparr>)]\<rparr>,
        \<lparr>logged = [LogAggregating \<lparr>Events_request = [ex_e2]\<rparr>, LogChecking 3 False,
                   LogChecking 1 True, LogTidying],
         received = []\<rparr>)"
    by (simp add: run_defs ex_defs)
  note inst = dispatch_state_monotone
    [where r = ex_sent and s = ex_unretryable and es = "[ex_e2, ex_e1]" and w = ex_world
       and t = 200]
  note inst' = dispatch_state_monotone
    [where r = ex_sent and s = ex_delivers and w = ex_world and env = ex_env and fp = 9
       and a = ex_agg and e = ex_e2 and rl = 1 and closed = 0 and c = 0
       and req = "Some \<lparr>Events_request = [ex_e2]\<rparr>" and resp = "\<lparr>Err = None\<rparr>"
       and a' = "\<lparr>Rules = [3, 1, 2], Aggregates = [(9, ex_sent\<lparr>Events := [ex_e1, ex_e2]\<rparr>)]\<rparr>"
       and w' = "\<lparr>logged = [LogAggregating \<lparr>Events_request = [ex_e2]\<rparr>, LogChecking 3 False,
                     LogChecking 1 True],
           received = []\<rparr>"
       and sels = "[FromAggRequests (Sent \<lparr>Events_request = [ex_e2]\<rparr>), FromTicker (\<lambda>fp. 200)]"
       and a'' = "\<lparr>Rules = [3, 1, 2], Aggregates = [(9, ex_sent\<lparr>Events := []\<rparr>)]\<rparr>"
       and w'' = "\<lparr>logged = [LogAggregating \<lparr>Events_request = [ex_e2]\<rparr>, LogChecking 3 False,
                   LogChecking 1 True, LogTidying],
         received = []\<rparr>"]
  have tidy: "state (fst (Tidy 200 (ex_sent, ex_world))) = aggSent"
    and send: "SendNotification ex_unretryable (ex_sent, ex_world) = (ex_sent, ex_world)"
    and later: "SendNotification ex_unretryable (fold Ingest [ex_e2, ex_e1] ex_sent, ex_world) =
      (fold Ingest [ex_e2, ex_e1] ex_sent, ex_world)"
    using inst sent by blast+
  have after_agg: "\<exists>r'. map_of (Aggregates \<lparr>Rules = [3, 1, 2],
                     Aggregates = [(9, ex_sent\<lparr>Events := [ex_e1, ex_e2]\<rparr>)]\<rparr>) 9 = Some r' \<and>
         state r' = aggSent"
    using inst' present sent agg by blast
  have after_loop: "\<exists>r''. map_of (Aggregates \<lparr>Rules = [3, 1, 2],
                      Aggregates = [(9, ex_sent\<lparr>Events := []\<rparr>)]\<rparr>) 9 = Some r'' \<and>
          state r'' = aggSent"
    using inst' present sent loop by blast
  have quiet: "snd (route ex_env ex_delivers ex_e2 1 (ex_agg, ex_world)) = ex_world"
    using inst' present' sent by blast
  show ?thesis
    using sent tidy send later present agg after_agg loop after_loop present' quiet
    by (intro conjI)
qed

subsection \<open>C5: SendNotification on an unsent instance\<close>

text \<open>
  Claim C5.  On an instance that is \<open>aggUnsent\<close>, \<open>SendNotification\<close> gives the receiver
  exactly one summary, made of the rule of the instance and of its whole event sequence,
  and changes neither of them.  When the receiver answers nil the state becomes
  \<open>aggSent\<close>; on a retryable error it stays \<open>aggUnsent\<close> and nothing is logged; on an
  error that is not retryable the state becomes \<open>aggSent\<close> and the error goes to the log.
  \<open>SendNotification\<close> returns no error, and whatever the receiver answers, \<open>aggregate\<close>
  with a rule list that is not empty answers its request without error.
\<close>

theorem SendNotification_unsent:
  "(state r = aggUnsent \<longrightarrow>
      received (snd (SendNotification s (r, w))) =
        received w @ [\<lparr>Rule_summary = Rule r, Events_summary = Events r\<rparr>] \<and>
      Rule (fst (SendNotification s (r, w))) = Rule r \<and>
      Events (fst (SendNotification s (r, w))) = Events r \<and>
      (s (received w) \<lparr>Rule_summary = Rule r, Events_summary = Events r\<rparr> = None \<longrightarrow>
         state (fst (SendNotification s (r, w))) = aggSent \<and>
         logged (snd (SendNotification s (r, w))) = logged w) \<and>
      (\<forall>err. s (received w) \<lparr>Rule_summary = Rule r, Events_summary = Events r\<rparr> = Some err \<and>
             Retryable err \<longrightarrow>
         state (fst (SendNotification s (r, w))) = aggUnsent \<and>
         logged (snd (SendNotification s (r, w))) = logged w) \<and>
      (\<forall>err. s (received w) \<lparr>Rule_summary = Rule r, Events_summary = Events r\<rparr> = Some err \<and>
             \<not> Retryable err \<longrightarrow>
         state (fst (SendNotification s (r, w))) = aggSent \<and>
         logged (snd (SendNotification s (r, w))) = logged w @ [LogUnretryable err])) \<and>
   (Rules a \<noteq> [] \<longrightarrow>
      (\<exists>aw'. aggregate env (Some rq) s (a, w) = Inr (\<lparr>Err = None\<rparr>, aw')))"
  by (auto simp add: SendNotification_def aggregate_def Let_def split: option.splits)

theorem SendNotification_unsent_witness:
  "state ex_unsent = aggUnsent \<and>
   ex_delivers (received ex_world) \<lparr>Rule_summary = Rule ex_unsent, Events_summary = Events ex_unsent\<rparr> = None \<and>
   SendNotification ex_delivers (ex_unsent, ex_world) =
     (ex_unsent\<lparr>state := aggSent\<rparr>,
      \<lparr>logged = [], received = [\<lparr>Rule_summary = 2, Events_summary = [ex_e1]\<rparr>]\<rparr>) \<and>
   ex_retryable (received ex_world) \<lparr>Rule_summary = Rule ex_unsent, Events_summary = Events ex_unsent\<rparr> =
     Some (SendError True) \<and>
   SendNotification ex_retryable (ex_unsent, ex_world) =
     (ex_unsent,
      \<lparr>logged = [], received = [\<lparr>Rule_summary = 2, Events_summary = [ex_e1]\<rparr>]\<rparr>) \<and>
   ex_unretryable (received ex_world) \<lparr>Rule_summary = Rule ex_unsent, Events_summary = Events ex_unsent\<rparr> =
     Some (SendError False) \<and>
   SendNotification ex_unretryable (ex_unsent, ex_world) =
     (ex_unsent\<lparr>state := aggSent\<rparr>,
      \<lparr>logged = [LogUnretryable (SendError False)],
       received = [\<lparr>Rule_summary = 2, Events_summary = [ex_e1]\<rparr>]\<rparr>) \<and>
   Rules ex_agg \<noteq> [] \<and>
   (\<exists>aw'. aggregate ex_env (Some \<lparr>Events_request = [ex_e1]\<rparr>) ex_unretryable
            (ex_agg\<lparr>Aggregates := []\<rparr>, ex_world) = Inr (\<lparr>Err = None\<rparr>, aw'))"
proof -
  let ?summary = "\<lparr>Rule_summary = Rule ex_unsent, Events_summary = Events ex_unsent\<rparr>"
  have unsent: "state ex_unsent = aggUnsent"
    and ok: "ex_delivers (received ex_world) ?summary = None"
    and retry: "ex_retryable (received ex_world) ?summary = Some (SendError True)"
    and fail: "ex_unretryable (received ex_world) ?summary = Some (SendError False)"
    and rules: "Rules (ex_agg\<lparr>Aggregates := []\<rparr>) \<noteq> []" "Rules ex_agg \<noteq> []"
    by (simp_all add: ex_defs)
  have flags: "Retryable (SendError True)" "\<not> Retryable (SendError False)"
    by simp_all
  note delivered = SendNotification_unsent [where r = ex_unsent and s = ex_delivers and w = ex_world]
  note retried = SendNotification_unsent [where r = ex_unsent and s = ex_retryable and w = ex_world]
  note failed = SendNotification_unsent
    [where r = ex_unsent and s = ex_unretryable and w = ex_world and env = ex_env
       and a = "ex_agg\<lparr>Aggregates := []\<rparr>" and rq = "\<lparr>Events_request = [ex_e1]\<rparr>"]
  have d: "received (snd (SendNotification ex_delivers (ex_unsent, ex_world))) =
        received ex_world @ [?summary]"
      "Rule (fst (SendNotification ex_delivers (ex_unsent, ex_world))) = Rule ex_unsent"
      "Events (fst (SendNotification ex_delivers (ex_unsent, ex_world))) = Events ex_unsent"
      "state (fst (SendNotification ex_delivers (ex_unsent, ex_world))) = aggSent"
      "logged (snd (SendNotification ex_delivers (ex_unsent, ex_world))) = logged ex_world"
    using delivered unsent ok by blast+
  have r: "received (snd (SendNotification ex_retryable (ex_unsent, ex_world))) =
        received ex_world @ [?summary]"
      "state (fst (SendNotification ex_retryable (ex_unsent, ex_world))) = aggUnsent"
      "logged (snd (SendNotification ex_retryable (ex_unsent, ex_world))) = logged ex_world"
    using retried unsent retry flags(1) by blast+
  have f: "received (snd (SendNotification ex_unretryable (ex_unsent, ex_world))) =
        received ex_world @ [?summary]"
      "state (fst (SendNotification ex_unretryable (ex_unsent, ex_world))) = aggSent"
      "logged (snd (SendNotification ex_unretryable (ex_unsent, ex_world))) =
        logged ex_world @ [LogUnretryable (SendError False)]"
    using failed unsent fail flags(2) by blast+
  have silent: "\<exists>aw'. aggregate ex_env (Some \<lparr>Events_request = [ex_e1]\<rparr>) ex_unretryable
            (ex_agg\<lparr>Aggregates := []\<rparr>, ex_world) = Inr (\<lparr>Err = None\<rparr>, aw')"
    using failed rules(1) by blast
  have e1: "SendNotification ex_delivers (ex_unsent, ex_world) =
     (ex_unsent\<lparr>state := aggSent\<rparr>,
      \<lparr>logged = [], received = [\<lparr>Rule_summary = 2, Events_summary = [ex_e1]\<rparr>]\<rparr>)"
    by (simp add: run_defs ex_defs)
  have e2: "SendNotification ex_retryable (ex_unsent, ex_world) =
     (ex_unsent,
      \<lparr>logged = [], received = [\<lparr>Rule_summary = 2, Events_summary = [ex_e1]\<rparr>]\<rparr>)"
    by (simp add: run_defs ex_defs)
  have e3: "SendNotification ex_unretryable (ex_unsent, ex_world) =
     (ex_unsent\<lparr>state := aggSent\<rparr>,
      \<lparr>logged = [LogUnretryable (SendError False)],
       received = [\<lparr>Rule_summary = 2, Events_summary = [ex_e1]\<rparr>]\<rparr>)"
    by (simp add: run_defs ex_defs)
  show ?thesis
    using unsent ok e1 retry e2 fail e3 rules(2) silent d r f by (intro conjI)
qed
subsection \<open>C6: one instance per fingerprint\<close>

text \<open>
  Claim C6.  The table never holds two entries with the same fingerprint: this is so in
  the new aggregator, is kept by every turn of the dispatch loop and therefore holds in
  every state the loop reaches.  Routing an event adds an entry, for the fingerprint of
  the event, only when the table has none for it; the event is appended to the event
  sequence of the entry of its fingerprint, which keeps the rule and the events it had,
  and the entries of the other fingerprints are untouched.  After a batch, two events of the batch that are handled by some rule
  and have the same fingerprint are both in the event sequence of the one instance of
  that fingerprint.
\<close>

theorem one_instance_per_fingerprint:
  "distinct (map fst (Aggregates NewAggregator)) \<and>
   (distinct (map fst (Aggregates a)) \<and>
    Dispatch_step env s sel (closed, a, w) = Inr (closed', a', w') \<longrightarrow>
      distinct (map fst (Aggregates a'))) \<and>
   (Dispatch env s sels (NewAggregator, w) = Waiting c (a'', w'') \<longrightarrow>
      distinct (map fst (Aggregates a''))) \<and>
   map fst (Aggregates (fst (route env s e r (a, w)))) =
     (if Fingerprint env e \<in> fst ` set (Aggregates a) then map fst (Aggregates a)
      else map fst (Aggregates a) @ [Fingerprint env e]) \<and>
   (\<exists>inst. map_of (Aggregates (fst (route env s e r (a, w)))) (Fingerprint env e) = Some inst \<and>
      Rule inst =
        (case map_of (Aggregates a) (Fingerprint env e) of Some i \<Rightarrow> Rule i | None \<Rightarrow> r) \<and>
      Events inst =
        (case map_of (Aggregates a) (Fingerprint env e) of
           Some i \<Rightarrow> Events i | None \<Rightarrow> []) @ [e]) \<and>
   (fp \<noteq> Fingerprint env e \<longrightarrow>
      map_of (Aggregates (fst (route env s e r (a, w)))) fp = map_of (Aggregates a) fp) \<and>
   (e1 \<in> set es \<and> e2 \<in> set es \<and> Fingerprint env e1 = Fingerprint env e2 \<and>
    (\<exists>x\<in>set (Rules a). Handles env x e1) \<and> (\<exists>x\<in>set (Rules a). Handles env x e2) \<longrightarrow>
      (\<exists>inst. map_of (Aggregates (fst (events_loop env s es (a, w)))) (Fingerprint env e1) =
                Some inst \<and>
              e1 \<in> set (Events inst) \<and> e2 \<in> set (Events inst)))"
proof -
  have c1: "distinct (map fst (Aggregates NewAggregator))"
    by (simp add: NewAggregator_def)
  have c2: "distinct (map fst (Aggregates a)) \<and>
      Dispatch_step env s sel (closed, a, w) = Inr (closed', a', w') \<longrightarrow>
      distinct (map fst (Aggregates a'))"
    using Dispatch_step_distinct [of a env s sel closed w closed' a' w'] by blast
  have c3: "Dispatch env s sels (NewAggregator, w) = Waiting c (a'', w'') \<longrightarrow>
      distinct (map fst (Aggregates a''))"
  proof
    assume run: "Dispatch env s sels (NewAggregator, w) = Waiting c (a'', w'')"
    let ?P = "\<lambda>a. distinct (map fst (Aggregates a))"
    have "?P (fst (snd (0 :: nat, NewAggregator, w)))" using c1 by simp
    then have "\<forall>c aw. Dispatch_loop env s sels (0, NewAggregator, w) = Waiting c aw \<longrightarrow> ?P (fst aw)"
      using Dispatch_loop_preserves [of ?P env s "(0, NewAggregator, w)" sels]
        Dispatch_step_distinct [of _ env s]
      by blast
    then show "distinct (map fst (Aggregates a''))"
      using run by (simp add: Dispatch_def)
  qed
  have c4: "map fst (Aggregates (fst (route env s e r (a, w)))) =
     (if Fingerprint env e \<in> fst ` set (Aggregates a) then map fst (Aggregates a)
      else map fst (Aggregates a) @ [Fingerprint env e])"
    by (rule route_keys)
  have c5: "\<exists>inst. map_of (Aggregates (fst (route env s e r (a, w)))) (Fingerprint env e) = Some inst \<and>
      Rule inst =
        (case map_of (Aggregates a) (Fingerprint env e) of Some i \<Rightarrow> Rule i | None \<Rightarrow> r) \<and>
      Events inst =
        (case map_of (Aggregates a) (Fingerprint env e) of
           Some i \<Rightarrow> Events i | None \<Rightarrow> []) @ [e]"
    using route_ingests [of env s e r a w] by blast
  have c6: "fp \<noteq> Fingerprint env e \<longrightarrow>
      map_of (Aggregates (fst (route env s e r (a, w)))) fp = map_of (Aggregates a) fp"
    by (simp add: route_map_of)
  have c7: "e1 \<in> set es \<and> e2 \<in> set es \<and> Fingerprint env e1 = Fingerprint env e2 \<and>
    (\<exists>x\<in>set (Rules a). Handles env x e1) \<and> (\<exists>x\<in>set (Rules a). Handles env x e2) \<longrightarrow>
      (\<exists>inst. map_of (Aggregates (fst (events_loop env s es (a, w)))) (Fingerprint env e1) =
                Some inst \<and>
              e1 \<in> set (Events inst) \<and> e2 \<in> set (Events inst))"
  proof (intro impI, elim conjE)
    assume in1: "e1 \<in> set es" and in2: "e2 \<in> set es"
      and same: "Fingerprint env e1 = Fingerprint env e2"
      and h1: "\<exists>x\<in>set (Rules a). Handles env x e1"
      and h2: "\<exists>x\<in>set (Rules a). Handles env x e2"
    from events_loop_member [OF in1 h1, of s w] obtain i1
      where i1: "map_of (Aggregates (fst (events_loop env s es (a, w)))) (Fingerprint env e1) = Some i1"
        "e1 \<in> set (Events i1)"
      by blast
    from events_loop_member [OF in2 h2, of s w] obtain i2
      where i2: "map_of (Aggregates (fst (events_loop env s es (a, w)))) (Fingerprint env e2) = Some i2"
        "e2 \<in> set (Events i2)"
      by blast
    have "i2 = i1" using i1(1) i2(1) same by simp
    then show "\<exists>inst. map_of (Aggregates (fst (events_loop env s es (a, w)))) (Fingerprint env e1) =
                Some inst \<and> e1 \<in> set (Events inst) \<and> e2 \<in> set (Events inst)"
      using i1 i2(2) by blast
  qed
  show ?thesis using c1 c2 c3 c4 c5 c6 c7 by (intro conjI)
qed

theorem one_instance_per_fingerprint_witness:
  "distinct (map fst (Aggregates ex_agg)) \<and>
   Dispatch_step ex_env ex_retryable (FromAggRequests (Sent \<lparr>Events_request = [ex_e2]\<rparr>))
       (0, ex_agg, ex_world) =
     Inr (0, \<lparr>Rules = [3, 1, 2], Aggregates = [(9, ex_sent\<lparr>Events := [ex_e1, ex_e2]\<rparr>)]\<rparr>,
          \<lparr>logged = [LogAggregating \<lparr>Events_request = [ex_e2]\<rparr>, LogChecking 3 False,
                     LogChecking 1 True],
           received = []\<rparr>) \<and>
   distinct (map fst (Aggregates
     \<lparr>Rules = [3, 1, 2], Aggregates = [(9, ex_sent\<lparr>Events := [ex_e1, ex_e2]\<rparr>)]\<rparr>)) \<and>
   Dispatch ex_env ex_retryable
       [FromRulesRequests (Sent \<lparr>Rules_request = [2]\<rparr>),
        FromAggRequests (Sent \<lparr>Events_request = [ex_e1, ex_e2, ex_e1\<lparr>Attributes := []\<rparr>]\<rparr>)]
       (NewAggregator, ex_world) =
     Waiting 0
       (\<lparr>Rules = [2],
         Aggregates = [(9, ex_unsent\<lparr>Events := [ex_e1, ex_e2]\<rparr>),
                       (0, ex_unsent\<lparr>Events := [ex_e1\<lparr>Attributes := []\<rparr>]\<rparr>)]\<rparr>,
        \<lparr>logged = [LogReplacing 1,
                   LogAggregating \<lparr>Events_request = [ex_e1, ex_e2, ex_e1\<lparr>Attributes := []\<rparr>]\<rparr>,
                   LogChecking 2 True, LogChecking 2 True, LogChecking 2 True],
         received = [\<lparr>Rule_summary = 2, Events_summary = [ex_e1]\<rparr>,
                     \<lparr>Rule_summary = 2, Events_summary = [ex_e1, ex_e2]\<rparr>,
                     \<lparr>Rule_summary = 2, Events_summary = [ex_e1\<lparr>Attributes := []\<rparr>]\<rparr>]\<rparr>) \<and>
   distinct (map fst (Aggregates
     \<lparr>Rules = [2],
      Aggregates = [(9, ex_unsent\<lparr>Events := [ex_e1, ex_e2]\<rparr>),
                    (0, ex_unsent\<lparr>Events := [ex_e1\<lparr>Attributes := []\<rparr>]\<rparr>)]\<rparr>)) \<and>
   (0 :: 64 word) \<noteq> Fingerprint ex_env ex_e2 \<and>
   map_of (Aggregates (fst (route ex_env ex_retryable ex_e2 1 (ex_agg, ex_world)))) 0 =
     map_of (Aggregates ex_agg) 0 \<and>
   ex_e1 \<noteq> ex_e2 \<and> Fingerprint ex_env ex_e1 = Fingerprint ex_env ex_e2 \<and>
   (\<exists>inst. map_of (Aggregates (fst (events_loop ex_env ex_retryable [ex_e1, ex_e2]
                (ex_agg\<lparr>Aggregates := []\<rparr>, ex_world)))) (Fingerprint ex_env ex_e1) = Some inst \<and>
           ex_e1 \<in> set (Events inst) \<and> ex_e2 \<in> set (Events inst))"
proof -
  let ?a' = "\<lparr>Rules = [3, 1, 2], Aggregates = [(9, ex_sent\<lparr>Events := [ex_e1, ex_e2]\<rparr>)]\<rparr>"
  let ?w' = "\<lparr>logged = [LogAggregating \<lparr>Events_request = [ex_e2]\<rparr>, LogChecking 3 False,
                     LogChecking 1 True],
           received = []\<rparr>"
  let ?sels = "[FromRulesRequests (Sent \<lparr>Rules_request = [2]\<rparr>),
        FromAggRequests (Sent \<lparr>Events_request = [ex_e1, ex_e2, ex_e1\<lparr>Attributes := []\<rparr>]\<rparr>)]"
  let ?a'' = "\<lparr>Rules = [2],
         Aggregates = [(9, ex_unsent\<lparr>Events := [ex_e1, ex_e2]\<rparr>),
                       (0, ex_unsent\<lparr>Events := [ex_e1\<lparr>Attributes := []\<rparr>]\<rparr>)]\<rparr>"
  let ?w'' = "\<lparr>logged = [LogReplacing 1,
                   LogAggregating \<lparr>Events_request = [ex_e1, ex_e2, ex_e1\<lparr>Attributes := []\<rparr>]\<rparr>,
                   LogChecking 2 True, LogChecking 2 True, LogChecking 2 True],
         received = [\<lparr>Rule_summary = 2, Events_summary = [ex_e1]\<rparr>,
                     \<lparr>Rule_summary = 2, Events_summary = [ex_e1, ex_e2]\<rparr>,
                     \<lparr>Rule_summary = 2, Events_summary = [ex_e1\<lparr>Attributes := []\<rparr>]\<rparr>]\<rparr>"
  have before: "distinct (map fst (Aggregates ex_agg))"
    and other: "(0 :: 64 word) \<noteq> Fingerprint ex_env ex_e2"
    and differ: "ex_e1 \<noteq> ex_e2"
    and same: "Fingerprint ex_env ex_e1 = Fingerprint ex_env ex_e2"
    and members: "ex_e1 \<in> set [ex_e1, ex_e2]" "ex_e2 \<in> set [ex_e1, ex_e2]"
    and handled: "\<exists>x\<in>set (Rules (ex_agg\<lparr>Aggregates := []\<rparr>)). Handles ex_env x ex_e1"
      "\<exists>x\<in>set (Rules (ex_agg\<lparr>Aggregates := []\<rparr>)). Handles ex_env x ex_e2"
    by (simp_all add: ex_defs Handles_def)
  have step: "Dispatch_step ex_env ex_retryable (FromAggRequests (Sent \<lparr>Events_request = [ex_e2]\<rparr>))
       (0, ex_agg, ex_world) = Inr (0, ?a', ?w')"
    by (simp add: run_defs ex_defs)
  have run: "Dispatch ex_env ex_retryable ?sels (NewAggregator, ex_world) = Waiting 0 (?a'', ?w'')"
    by (simp add: run_defs ex_defs)
  note inst = one_instance_per_fingerprint
    [where env = ex_env and s = ex_retryable and a = ex_agg and w = ex_world and closed = 0
       and sel = "FromAggRequests (Sent \<lparr>Events_request = [ex_e2]\<rparr>)" and closed' = 0
       and a' = ?a' and w' = ?w' and sels = ?sels and c = 0 and a'' = ?a'' and w'' = ?w''
       and e = ex_e2 and r = 1 and fp = 0]
  note inst' = one_instance_per_fingerprint
    [where env = ex_env and s = ex_retryable and a = "ex_agg\<lparr>Aggregates := []\<rparr>" and w = ex_world
       and ?e1.0 = ex_e1 and ?e2.0 = ex_e2 and es = "[ex_e1, ex_e2]"]
  have after_step: "distinct (map fst (Aggregates ?a'))"
    using inst before step by blast
  have after_run: "distinct (map fst (Aggregates ?a''))"
    using inst run by blast
  have untouched: "map_of (Aggregates (fst (route ex_env ex_retryable ex_e2 1 (ex_agg, ex_world)))) 0 =
     map_of (Aggregates ex_agg) 0"
    using inst other by blast
  have together: "\<exists>inst. map_of (Aggregates (fst (events_loop ex_env ex_retryable [ex_e1, ex_e2]
                (ex_agg\<lparr>Aggregates := []\<rparr>, ex_world)))) (Fingerprint ex_env ex_e1) = Some inst \<and>
           ex_e1 \<in> set (Events inst) \<and> ex_e2 \<in> set (Events inst)"
    using inst' members same handled by blast
  show ?thesis
    using before step after_step run after_run other untouched differ same together
    by (intro conjI)
qed

subsection \<open>C7: replacing the rules\<close>

text \<open>
  Claim C7.  \<open>replaceRules\<close> returns an aggregator whose rule list is the list of the
  request, whatever the list was before, and whose table is the table it was given:
  same fingerprints, same instances, each with the rule, events, expiry and state it
  had.  The receiver is not called.  The turn of the dispatch loop that serves the
  request does the same.
\<close>

theorem replaceRules_keeps_instances:
  "replaceRules (Some rq) (a, w) =
     Inr ((), \<lparr>Rules = Rules_request rq, Aggregates = Aggregates a\<rparr>,
          \<lparr>logged = logged w @ [LogReplacing (length (Rules_request rq))],
           received = received w\<rparr>) \<and>
   Dispatch_step env s (FromRulesRequests (Sent rq)) (closed, a, w) =
     Inr (closed, \<lparr>Rules = Rules_request rq, Aggregates = Aggregates a\<rparr>,
          \<lparr>logged = logged w @ [LogReplacing (length (Rules_request rq))],
           received = received w\<rparr>)"
  by (simp add: replaceRules_def Dispatch_step_def)

subsection \<open>C8: closing the request channels\<close>

text \<open>
  Claim C8 does not hold of the code.  A receive from a closed request channel yields a
  nil request, and the loop passes it to \<open>aggregate\<close> or \<open>replaceRules\<close> before it looks
  at \<open>open\<close>; both dereference the request.  So the turn that sees a closure panics
  instead of counting it: after \<open>Close\<close>, which closes \<open>rulesRequests\<close> and then
  \<open>aggRequests\<close>, \<open>Dispatch\<close> panics at the first of the two receives it selects, and no
  sequence of selections whatever makes \<open>Dispatch\<close> leave its loop and send on
  \<open>a.closed\<close>.
\<close>

theorem Dispatch_panics_on_closed_channel:
  "Dispatch ex_env ex_delivers [FromRulesRequests ChannelClosed, FromAggRequests ChannelClosed]
     (NewAggregator, ex_world) = Panicked NilPointerDereference \<and>
   Dispatch env s (FromRulesRequests ChannelClosed # rest) aw = Panicked NilPointerDereference \<and>
   Dispatch env s (FromAggRequests ChannelClosed # rest) aw = Panicked NilPointerDereference \<and>
   Dispatch env s sels aw \<noteq> SignalledClosed aw'"
proof -
  have never: "Dispatch env s sels aw \<noteq> SignalledClosed aw'" for env :: "'a env" and s sels aw aw'
    using Dispatch_loop_never_counts [of "(0, aw)" env s sels aw'] by (simp add: Dispatch_def)
  have rules: "Dispatch env s (FromRulesRequests ChannelClosed # rest) aw =
      Panicked NilPointerDereference" for env :: "'a env" and s rest aw
    by (simp add: Dispatch_def Dispatch_step_closure_panics)
  have agg: "Dispatch env s (FromAggRequests ChannelClosed # rest) aw =
      Panicked NilPointerDereference" for env :: "'a env" and s rest aw
    by (simp add: Dispatch_def Dispatch_step_closure_panics)
  have closing: "Dispatch ex_env ex_delivers
      [FromRulesRequests ChannelClosed, FromAggRequests ChannelClosed]
      (NewAggregator, ex_world) = Panicked NilPointerDereference"
    by (simp add: Dispatch_def Dispatch_step_closure_panics)
  show ?thesis using closing never rules agg by (intro conjI)
qed

subsection \<open>C9: the rule of an instance\<close>

text \<open>
  Claim C9.  When an event is routed and the table has no instance for its
  fingerprint, the instance created for it has the rule that handled the event, which is
  the first rule of the list that handles it.  Afterwards the rule of the instance never
  changes: \<open>Ingest\<close>, \<open>Tidy\<close> and \<open>SendNotification\<close> keep it, and so does routing a later
  event with the same fingerprint, whichever rule handled that event; an instance of the
  table is still there, with the same rule, after every turn of the dispatch loop
  (ingestion, rule replacement, sweep) and after any number of turns.
\<close>

theorem instance_rule_never_changes:
  "((\<forall>x\<in>set pre. \<not> Handles env x e) \<and> Handles env rl e \<and>
    map_of (Aggregates a) (Fingerprint env e) = None \<longrightarrow>
      (\<exists>inst. map_of (Aggregates (fst (rules_loop env s e (pre @ rl # post) (a, w))))
                 (Fingerprint env e) = Some inst \<and> Rule inst = rl)) \<and>
   Rule (Ingest e r) = Rule r \<and>
   Rule (fst (Tidy t (r, w))) = Rule r \<and>
   Rule (fst (SendNotification s (r, w))) = Rule r \<and>
   (map_of (Aggregates a) (Fingerprint env e) = Some r \<longrightarrow>
      (\<exists>inst. map_of (Aggregates (fst (route env s e rl (a, w)))) (Fingerprint env e) = Some inst \<and>
              Rule inst = Rule r)) \<and>
   (map_of (Aggregates a) fp = Some r \<and>
    Dispatch_step env s sel (closed, a, w) = Inr (closed', a', w') \<longrightarrow>
      (\<exists>r'. map_of (Aggregates a') fp = Some r' \<and> Rule r' = Rule r)) \<and>
   (map_of (Aggregates a) fp = Some r \<and>
    Dispatch_loop env s sels (closed, a, w) = Waiting c (a'', w'') \<longrightarrow>
      (\<exists>r''. map_of (Aggregates a'') fp = Some r'' \<and> Rule r'' = Rule r))"
proof -
  let ?R = "\<lambda>x y. Rule y = Rule x"
  have step: "\<exists>y. map_of (Aggregates a') fp = Some y \<and> Rule y = Rule x"
    if present: "map_of (Aggregates a0) fp = Some x"
      and run: "Dispatch_step env s sel (c0, a0, w0) = Inr (c', a', w')"
    for a0 x sel c0 w0 c' a' w'
  proof (rule Dispatch_step_evolves [of ?R s a0 fp x env sel c0 w0 c' a' w'])
    show "\<And>x. ?R x x" by simp
    show "\<And>x y z. ?R x y \<Longrightarrow> ?R y z \<Longrightarrow> ?R x z" by simp
    show "\<And>x e w. ?R x (fst (SendNotification s (Ingest e x, w)))"
      by (simp add: SendNotification_fields Ingest_def)
    show "\<And>x t w. ?R x (fst (Tidy t (x, w)))" by (simp add: Tidy_fields)
    show "map_of (Aggregates a0) fp = Some x" by (rule present)
    show "Dispatch_step env s sel (c0, a0, w0) = Inr (c', a', w')" by (rule run)
  qed
  have c1: "(\<forall>x\<in>set pre. \<not> Handles env x e) \<and> Handles env rl e \<and>
    map_of (Aggregates a) (Fingerprint env e) = None \<longrightarrow>
      (\<exists>inst. map_of (Aggregates (fst (rules_loop env s e (pre @ rl # post) (a, w))))
                 (Fingerprint env e) = Some inst \<and> Rule inst = rl)"
  proof (intro impI, elim conjE)
    assume none: "\<forall>x\<in>set pre. \<not> Handles env x e" and first: "Handles env rl e"
      and absent: "map_of (Aggregates a) (Fingerprint env e) = None"
    let ?w = "w\<lparr>logged := logged w @ map (\<lambda>x. LogChecking x False) pre @ [LogChecking rl True]\<rparr>"
    have "rules_loop env s e (pre @ rl # post) (a, w) = route env s e rl (a, ?w)"
      by (rule rules_loop_first_match [OF none first])
    then show "\<exists>inst. map_of (Aggregates (fst (rules_loop env s e (pre @ rl # post) (a, w))))
                 (Fingerprint env e) = Some inst \<and> Rule inst = rl"
      using route_ingests [of env s e rl a ?w] absent by auto
  qed
  have c2: "Rule (Ingest e r) = Rule r"
    by (simp add: Ingest_def)
  have c3: "Rule (fst (Tidy t (r, w))) = Rule r"
    by (simp add: Tidy_fields)
  have c4: "Rule (fst (SendNotification s (r, w))) = Rule r"
    by (simp add: SendNotification_fields)
  have c5: "map_of (Aggregates a) (Fingerprint env e) = Some r \<longrightarrow>
      (\<exists>inst. map_of (Aggregates (fst (route env s e rl (a, w)))) (Fingerprint env e) = Some inst \<and>
              Rule inst = Rule r)"
    using route_ingests [of env s e rl a w] by auto
  have c6: "map_of (Aggregates a) fp = Some r \<and>
    Dispatch_step env s sel (closed, a, w) = Inr (closed', a', w') \<longrightarrow>
      (\<exists>r'. map_of (Aggregates a') fp = Some r' \<and> Rule r' = Rule r)"
    using step by blast
  have c7: "map_of (Aggregates a) fp = Some r \<and>
    Dispatch_loop env s sels (closed, a, w) = Waiting c (a'', w'') \<longrightarrow>
      (\<exists>r''. map_of (Aggregates a'') fp = Some r'' \<and> Rule r'' = Rule r)"
  proof (intro impI, elim conjE)
    assume present: "map_of (Aggregates a) fp = Some r"
      and run: "Dispatch_loop env s sels (closed, a, w) = Waiting c (a'', w'')"
    let ?P = "\<lambda>a. \<exists>y. map_of (Aggregates a) fp = Some y \<and> Rule y = Rule r"
    have pres: "?P a1" if "?P a0" "Dispatch_step env s sel (c0, a0, w0) = Inr (c1, a1, w1)"
      for sel c0 a0 w0 c1 a1 w1
      using that step [of a0 _ sel c0 w0 c1 a1 w1] by force
    have "?P (fst (snd (closed, a, w)))" using present by simp
    then have "\<forall>c aw. Dispatch_loop env s sels (closed, a, w) = Waiting c aw \<longrightarrow> ?P (fst aw)"
      using Dispatch_loop_preserves [of ?P env s "(closed, a, w)" sels] pres by blast
    then show "\<exists>r''. map_of (Aggregates a'') fp = Some r'' \<and> Rule r'' = Rule r"
      using run by simp
  qed
  show ?thesis using c1 c2 c3 c4 c5 c6 c7 by (intro conjI)
qed

theorem instance_rule_never_changes_witness:
  "\<not> Handles ex_env 3 ex_e1 \<and> Handles ex_env 1 ex_e1 \<and>
   map_of (Aggregates (ex_agg\<lparr>Aggregates := []\<rparr>)) (Fingerprint ex_env ex_e1) = None \<and>
   (\<exists>inst. map_of (Aggregates (fst (rules_loop ex_env ex_retryable ex_e1 ([3] @ 1 # [2])
                (ex_agg\<lparr>Aggregates := []\<rparr>, ex_world)))) (Fingerprint ex_env ex_e1) = Some inst \<and>
           Rule inst = 1) \<and>
   Handles ex_env 1 ex_e2 \<and> Rule ex_sent = 2 \<and>
   map_of (Aggregates ex_agg) (Fingerprint ex_env ex_e2) = Some ex_sent \<and>
   (\<exists>inst. map_of (Aggregates (fst (route ex_env ex_retryable ex_e2 1 (ex_agg, ex_world))))
              (Fingerprint ex_env ex_e2) = Some inst \<and> Rule inst = 2) \<and>
   Dispatch_step ex_env ex_retryable (FromAggRequests (Sent \<lparr>Events_request = [ex_e2]\<rparr>))
       (0, ex_agg, ex_world) =
     Inr (0, \<lparr>Rules = [3, 1, 2], Aggregates = [(9, ex_sent\<lparr>Events := [ex_e1, ex_e2]\<rparr>)]\<rparr>,
          \<lparr>logged = [LogAggregating \<lparr>Events_request = [ex_e2]\<rparr>, LogChecking 3 False,
                     LogChecking 1 True],
           received = []\<rparr>) \<and>
   (\<exists>r'. map_of (Aggregates \<lparr>Rules = [3, 1, 2],
                     Aggregates = [(9, ex_sent\<lparr>Events := [ex_e1, ex_e2]\<rparr>)]\<rparr>) 9 = Some r' \<and>
         Rule r' = 2) \<and>
   Dispatch_loop ex_env ex_retryable
       [FromRulesRequests (Sent \<lparr>Rules_request = [1]\<rparr>),
        FromAggRequests (Sent \<lparr>Events_request = [ex_e2]\<rparr>),
        FromTicker (\<lambda>fp. 102)]
       (0, \<lparr>Rules = [2], Aggregates = [(9, ex_unsent)]\<rparr>, ex_world) =
     Waiting 0
       (\<lparr>Rules = [1], Aggregates = [(9, ex_unsent\<lparr>Events := [ex_e2]\<rparr>)]\<rparr>,
        \<lparr>logged = [LogReplacing 1, LogAggregating \<lparr>Events_request = [ex_e2]\<rparr>,
                   LogChecking 1 True, LogTidying],
         received = [\<lparr>Rule_summary = 2, Events_summary = [ex_e1, ex_e2]\<rparr>]\<rparr>) \<and>
   (\<exists>r''. map_of (Aggregates \<lparr>Rules = [1],
                      Aggregates = [(9, ex_unsent\<lparr>Events := [ex_e2]\<rparr>)]\<rparr>) 9 = Some r'' \<and>
          Rule r'' = Rule ex_unsent)"
proof -
  let ?a' = "\<lparr>Rules = [3, 1, 2], Aggregates = [(9, ex_sent\<lparr>Events := [ex_e1, ex_e2]\<rparr>)]\<rparr>"
  let ?w' = "\<lparr>logged = [LogAggregating \<lparr>Events_request = [ex_e2]\<rparr>, LogChecking 3 False,
                     LogChecking 1 True],
           received = []\<rparr>"
  let ?sels = "[FromRulesRequests (Sent \<lparr>Rules_request = [1]\<rparr>),
        FromAggRequests (Sent \<lparr>Events_request = [ex_e2]\<rparr>),
        FromTicker (\<lambda>fp. 102)]"
  let ?a'' = "\<lparr>Rules = [1], Aggregates = [(9, ex_unsent\<lparr>Events := [ex_e2]\<rparr>)]\<rparr>"
  let ?w'' = "\<lparr>logged = [LogReplacing 1, LogAggregating \<lparr>Events_request = [ex_e2]\<rparr>,
                   LogChecking 1 True, LogTidying],
         received = [\<lparr>Rule_summary = 2, Events_summary = [ex_e1, ex_e2]\<rparr>]\<rparr>"
  have no3: "\<not> Handles ex_env 3 ex_e1"
    and pre: "\<forall>x\<in>set [3]. \<not> Handles ex_env x ex_e1"
    and yes1: "Handles ex_env 1 ex_e1"
    and yes1': "Handles ex_env 1 ex_e2"
    and rule: "Rule ex_sent = 2"
    and absent: "map_of (Aggregates (ex_agg\<lparr>Aggregates := []\<rparr>)) (Fingerprint ex_env ex_e1) = None"
    and present: "map_of (Aggregates ex_agg) (Fingerprint ex_env ex_e2) = Some ex_sent"
    and present': "map_of (Aggregates ex_agg) 9 = Some ex_sent"
    and present'': "map_of (Aggregates \<lparr>Rules = [2], Aggregates = [(9, ex_unsent)]\<rparr>) 9 = Some ex_unsent"
    by (simp_all add: ex_defs Handles_def)
  have step: "Dispatch_step ex_env ex_retryable (FromAggRequests (Sent \<lparr>Events_request = [ex_e2]\<rparr>))
       (0, ex_agg, ex_world) = Inr (0, ?a', ?w')"
    by (simp add: run_defs ex_defs)
  have loop: "Dispatch_loop ex_env ex_retryable ?sels
       (0, \<lparr>Rules = [2], Aggregates = [(9, ex_unsent)]\<rparr>, ex_world) = Waiting 0 (?a'', ?w'')"
    by (simp add: run_defs ex_defs)
  note creation = instance_rule_never_changes
    [where env = ex_env and s = ex_retryable and e = ex_e1 and pre = "[3]" and rl = 1
       and post = "[2]" and a = "ex_agg\<lparr>Aggregates := []\<rparr>" and w = ex_world]
  note later = instance_rule_never_changes
    [where env = ex_env and s = ex_retryable and e = ex_e2 and rl = 1 and a = ex_agg
       and w = ex_world and r = ex_sent and fp = 9 and closed = 0 and closed' = 0
       and sel = "FromAggRequests (Sent \<lparr>Events_request = [ex_e2]\<rparr>)" and a' = ?a' and w' = ?w']
  note forever = instance_rule_never_changes
    [where env = ex_env and s = ex_retryable and r = ex_unsent and fp = 9 and closed = 0
       and a = "\<lparr>Rules = [2], Aggregates = [(9, ex_unsent)]\<rparr>" and w = ex_world
       and sels = ?sels and c = 0 and a'' = ?a'' and w'' = ?w'']
  have created: "\<exists>inst. map_of (Aggregates (fst (rules_loop ex_env ex_retryable ex_e1 ([3] @ 1 # [2])
                (ex_agg\<lparr>Aggregates := []\<rparr>, ex_world)))) (Fingerprint ex_env ex_e1) = Some inst \<and>
           Rule inst = 1"
    using creation pre yes1 absent by blast
  have routed: "\<exists>inst. map_of (Aggregates (fst (route ex_env ex_retryable ex_e2 1 (ex_agg, ex_world))))
              (Fingerprint ex_env ex_e2) = Some inst \<and> Rule inst = Rule ex_sent"
    using later present by blast
  then have routed': "\<exists>inst. map_of (Aggregates (fst (route ex_env ex_retryable ex_e2 1 (ex_agg, ex_world))))
              (Fingerprint ex_env ex_e2) = Some inst \<and> Rule inst = 2"
    using rule by simp
  have stepped: "\<exists>r'. map_of (Aggregates ?a') 9 = Some r' \<and> Rule r' = Rule ex_sent"
    using later present' step by blast
  then have stepped': "\<exists>r'. map_of (Aggregates ?a') 9 = Some r' \<and> Rule r' = 2"
    using rule by simp
  have looped: "\<exists>r''. map_of (Aggregates ?a'') 9 = Some r'' \<and> Rule r'' = Rule ex_unsent"
    using forever present'' loop by blast
  show ?thesis
    using no3 yes1 absent created yes1' rule present routed' step stepped' loop looped
    by (intro conjI)
qed

subsection \<open>C10: an unsent instance holds an event\<close>

text \<open>
  Claim C10.  In the table of the new aggregator, and in the table after any number of
  turns of the dispatch loop started on it, every instance whose event sequence is empty
  is \<open>aggSent\<close>; each turn (ingestion, which creates an instance and ingests into it at
  once, rule replacement, sweep) keeps this property of the table.
\<close>

theorem empty_instances_are_sent:
  "empty_only_when_sent NewAggregator \<and>
   (empty_only_when_sent a \<and> Dispatch_step env s sel (closed, a, w) = Inr (closed', a', w') \<longrightarrow>
      empty_only_when_sent a') \<and>
   (Dispatch env s sels (NewAggregator, w) = Waiting c (a'', w'') \<longrightarrow>
      empty_only_when_sent a'' \<and>
      (\<forall>fp r. map_of (Aggregates a'') fp = Some r \<and> Events r = [] \<longrightarrow> state r = aggSent) \<and>
      (\<forall>fp r. map_of (Aggregates a'') fp = Some r \<and> state r = aggUnsent \<longrightarrow> Events r \<noteq> []))"
proof -
  have c1: "empty_only_when_sent NewAggregator"
    by (simp add: empty_only_when_sent_def NewAggregator_def)
  have c2: "empty_only_when_sent a \<and> Dispatch_step env s sel (closed, a, w) = Inr (closed', a', w') \<longrightarrow>
      empty_only_when_sent a'"
    using Dispatch_step_invariant [of a env s sel closed w closed' a' w'] by blast
  have entries: "state r = aggSent \<or> Events r \<noteq> []"
    if "empty_only_when_sent b" "map_of (Aggregates b) fp = Some r" for b fp r
    using that map_of_SomeD [of "Aggregates b" fp r]
    by (auto simp add: empty_only_when_sent_def list_all_iff)
  have c3: "Dispatch env s sels (NewAggregator, w) = Waiting c (a'', w'') \<longrightarrow>
      empty_only_when_sent a'' \<and>
      (\<forall>fp r. map_of (Aggregates a'') fp = Some r \<and> Events r = [] \<longrightarrow> state r = aggSent) \<and>
      (\<forall>fp r. map_of (Aggregates a'') fp = Some r \<and> state r = aggUnsent \<longrightarrow> Events r \<noteq> [])"
  proof
    assume run: "Dispatch env s sels (NewAggregator, w) = Waiting c (a'', w'')"
    have "empty_only_when_sent (fst (snd (0 :: nat, NewAggregator, w)))" using c1 by simp
    then have "\<forall>c aw. Dispatch_loop env s sels (0, NewAggregator, w) = Waiting c aw \<longrightarrow>
        empty_only_when_sent (fst aw)"
      using Dispatch_loop_preserves [of empty_only_when_sent env s "(0, NewAggregator, w)" sels]
        Dispatch_step_invariant [of _ env s]
      by blast
    then have inv: "empty_only_when_sent a''"
      using run by (simp add: Dispatch_def)
    show "empty_only_when_sent a'' \<and>
      (\<forall>fp r. map_of (Aggregates a'') fp = Some r \<and> Events r = [] \<longrightarrow> state r = aggSent) \<and>
      (\<forall>fp r. map_of (Aggregates a'') fp = Some r \<and> state r = aggUnsent \<longrightarrow> Events r \<noteq> [])"
      using inv entries [OF inv] by force
  qed
  show ?thesis using c1 c2 c3 by (intro conjI)
qed

theorem empty_instances_are_sent_witness:
  "empty_only_when_sent ex_agg \<and>
   Dispatch_step ex_env ex_retryable (FromTicker (\<lambda>fp. 200)) (0, ex_agg, ex_world) =
     Inr (0, \<lparr>Rules = [3, 1, 2], Aggregates = [(9, ex_sent\<lparr>Events := []\<rparr>)]\<rparr>,
          \<lparr>logged = [LogTidying], received = []\<rparr>) \<and>
   empty_only_when_sent \<lparr>Rules = [3, 1, 2], Aggregates = [(9, ex_sent\<lparr>Events := []\<rparr>)]\<rparr> \<and>
   Dispatch ex_env ex_retryable
     [FromRulesRequests (Sent \<lparr>Rules_request = [3, 1, 2]\<rparr>),
      FromAggRequests (Sent \<lparr>Events_request = [ex_e1]\<rparr>),
      FromTicker (\<lambda>fp. 200)] (NewAggregator, ex_world) =
   Waiting 0
     (\<lparr>Rules = [3, 1, 2],
       Aggregates = [(9, \<lparr>Rule = 1, Events = [], EndsAt = 0, state = aggSent\<rparr>)]\<rparr>,
      \<lparr>logged = [LogReplacing 3, LogAggregating \<lparr>Events_request = [ex_e1]\<rparr>, LogChecking 3 False,
                 LogChecking 1 True, LogTidying],
       received = [\<lparr>Rule_summary = 1, Events_summary = [ex_e1]\<rparr>]\<rparr>) \<and>
   empty_only_when_sent
     \<lparr>Rules = [3, 1, 2],
      Aggregates = [(9, \<lparr>Rule = 1, Events = [], EndsAt = 0, state = aggSent\<rparr>)]\<rparr> \<and>
   map_of (Aggregates \<lparr>Rules = [3, 1, 2],
      Aggregates = [(9, \<lparr>Rule = 1, Events = [], EndsAt = 0, state = aggSent\<rparr>)]\<rparr>) 9 =
     Some \<lparr>Rule = 1, Events = [], EndsAt = 0, state = aggSent\<rparr>"
proof -
  let ?a' = "\<lparr>Rules = [3, 1, 2], Aggregates = [(9, ex_sent\<lparr>Events := []\<rparr>)]\<rparr>"
  let ?w' = "\<lparr>logged = [LogTidying], received = []\<rparr>"
  let ?sels = "[FromRulesRequests (Sent \<lparr>Rules_request = [3, 1, 2]\<rparr>),
      FromAggRequests (Sent \<lparr>Events_request = [ex_e1]\<rparr>),
      FromTicker (\<lambda>fp. 200)]"
  let ?a'' = "\<lparr>Rules = [3, 1, 2],
       Aggregates = [(9, \<lparr>Rule = 1, Events = [], EndsAt = 0, state = aggSent\<rparr>)]\<rparr>"
  let ?w'' = "\<lparr>logged = [LogReplacing 3, LogAggregating \<lparr>Events_request = [ex_e1]\<rparr>,
                 LogChecking 3 False, LogChecking 1 True, LogTidying],
       received = [\<lparr>Rule_summary = 1, Events_summary = [ex_e1]\<rparr>]\<rparr>"
  have before: "empty_only_when_sent ex_agg"
    by (simp add: empty_only_when_sent_def ex_defs)
  have step: "Dispatch_step ex_env ex_retryable (FromTicker (\<lambda>fp. 200)) (0, ex_agg, ex_world) =
      Inr (0, ?a', ?w')"
    by (simp add: run_defs ex_defs)
  have run: "Dispatch ex_env ex_retryable ?sels (NewAggregator, ex_world) = Waiting 0 (?a'', ?w'')"
    by (simp add: run_defs ex_defs)
  have entry: "map_of (Aggregates ?a'') 9 = Some \<lparr>Rule = 1, Events = [], EndsAt = 0, state = aggSent\<rparr>"
    by simp
  note inst = empty_instances_are_sent
    [where env = ex_env and s = ex_retryable and a = ex_agg and w = ex_world and closed = 0
       and sel = "FromTicker (\<lambda>fp. 200)" and closed' = 0 and a' = ?a' and w' = ?w'
       and sels = ?sels and c = 0 and a'' = ?a'' and w'' = ?w'']
  have after_step: "empty_only_when_sent ?a'"
    using inst before step by blast
  have after_run: "empty_only_when_sent ?a''"
    using inst run by blast
  show ?thesis
    using before step after_step run after_run entry by (intro conjI)
qed

end
